theory Spec2Isabelle
  imports
    Main
    "HOL-Library.Char_ord"
    "HOL-Library.List_Lexorder"
    "HOL-Library.AList"
    "HOL-Library.Multiset"
begin

section \<open>Values, errors and strings\<close>

text \<open>
  The library system of \<^verbatim>\<open>project.py\<close> is embedded function by function.
  A Python \<^verbatim>\<open>str\<close> is a \<^typ>\<open>string\<close>, read as the list of its code points
  (those below 256; \<^typ>\<open>char\<close> has eight bits), compared as Python compares
  strings: code point by code point, a proper prefix first.

  The exceptions the code can raise are values. \<open>InvalidGenre\<close> is the
  \<^verbatim>\<open>ValueError\<close> of \<^verbatim>\<open>Book.__init__\<close>, \<open>InvalidLiteral\<close> the \<^verbatim>\<open>ValueError\<close> of
  \<^verbatim>\<open>int()\<close>, \<open>TypeError\<close> the one of a call that gets two values for one
  parameter. \<open>IllTyped\<close> is not raised by Python: it marks a mapping handed to a
  \<^verbatim>\<open>from_dict\<close> whose values do not have the types the constructor is annotated
  with, which the typed records below cannot hold.
\<close>

datatype error = InvalidGenre | InvalidLiteral | AttributeError | KeyError | TypeError | IllTyped

text \<open>The values a decoded JSON document and a keyword argument can hold.\<close>

datatype pyval =
    VNone
  | VBool bool
  | VInt int
  | VStr string
  | VList "pyval list"
  | VDict "(string \<times> pyval) list"

text \<open>
  A Python \<^verbatim>\<open>dict\<close> with string keys keeps insertion order: an association
  list, read with \<^const>\<open>map_of\<close> and written with \<^const>\<open>AList.update\<close> (an
  existing key keeps its place, a new key goes to the end).
\<close>

type_synonym dict = "(string \<times> pyval) list"

definition getitem :: "dict \<Rightarrow> string \<Rightarrow> error + pyval" where
  "getitem d k = (case map_of d k of None \<Rightarrow> Inl KeyError | Some v \<Rightarrow> Inr v)"

text \<open>Truth value of an object, as \<^verbatim>\<open>or\<close> tests it.\<close>

fun truthy :: "pyval \<Rightarrow> bool" where
  "truthy VNone = False"
| "truthy (VBool b) = b"
| "truthy (VInt i) = (i \<noteq> 0)"
| "truthy (VStr s) = (s \<noteq> [])"
| "truthy (VList xs) = (xs \<noteq> [])"
| "truthy (VDict d) = (d \<noteq> [])"

text \<open>
  \<^verbatim>\<open>str.lower\<close> on code points below 256: \<open>A\<close> to \<open>Z\<close> and the Latin-1 capitals
  (192 to 214, 216 to 222) move up by 32, everything else stays.
\<close>

definition lower_char :: "char \<Rightarrow> char" where
  "lower_char c =
     (let n = (of_char c :: nat)
      in if (65 \<le> n \<and> n \<le> 90) \<or> (192 \<le> n \<and> n \<le> 214) \<or> (216 \<le> n \<and> n \<le> 222)
         then char_of (n + 32) else c)"

definition lower :: "string \<Rightarrow> string" where
  "lower s = map lower_char s"

text \<open>\<^verbatim>\<open>x.lower()\<close> on any value: only a \<^verbatim>\<open>str\<close> has the method.\<close>

fun py_lower :: "pyval \<Rightarrow> error + string" where
  "py_lower (VStr s) = Inr (lower s)"
| "py_lower _ = Inl AttributeError"

section \<open>Part 1: helper functions\<close>

subsection \<open>Reading and printing integers\<close>

definition is_digit :: "char \<Rightarrow> bool" where
  "is_digit c = (48 \<le> (of_char c :: nat) \<and> (of_char c :: nat) \<le> 57)"

definition digit_val :: "char \<Rightarrow> nat" where
  "digit_val c = of_char c - 48"

definition digit_char :: "nat \<Rightarrow> char" where
  "digit_char d = char_of (48 + d)"

text \<open>The characters \<^verbatim>\<open>int()\<close> skips at both ends of its argument.\<close>

definition int_space :: "char \<Rightarrow> bool" where
  "int_space c =
     (let n = (of_char c :: nat) in (9 \<le> n \<and> n \<le> 13) \<or> n = 32 \<or> n = 133 \<or> n = 160)"

definition int_strip :: "string \<Rightarrow> string" where
  "int_strip s = rev (dropWhile int_space (rev (dropWhile int_space s)))"

text \<open>
  The digits of a base-10 literal: at least one digit, single underscores allowed
  between digits only. The flag says whether the previous character was a digit.
\<close>

fun py_digits :: "nat \<Rightarrow> bool \<Rightarrow> string \<Rightarrow> nat option" where
  "py_digits acc prev [] = (if prev then Some acc else None)"
| "py_digits acc prev (c # cs) =
     (if is_digit c then py_digits (10 * acc + digit_val c) True cs
      else if c = CHR ''_'' \<and> prev then py_digits acc False cs
      else None)"

text \<open>\<^verbatim>\<open>int(s)\<close> for a string: surrounding blanks, one optional sign, the digits.\<close>

definition py_int :: "string \<Rightarrow> error + int" where
  "py_int s =
     (case int_strip s of
        [] \<Rightarrow> Inl InvalidLiteral
      | c # cs \<Rightarrow>
          if c = CHR ''-'' then
            (case py_digits 0 False cs of None \<Rightarrow> Inl InvalidLiteral | Some n \<Rightarrow> Inr (- int n))
          else if c = CHR ''+'' then
            (case py_digits 0 False cs of None \<Rightarrow> Inl InvalidLiteral | Some n \<Rightarrow> Inr (int n))
          else
            (case py_digits 0 False (c # cs) of None \<Rightarrow> Inl InvalidLiteral | Some n \<Rightarrow> Inr (int n)))"

text \<open>The decimal digits of a natural number, most significant first.\<close>

fun dec_str :: "nat \<Rightarrow> string" where
  "dec_str n = (if n < 10 then [digit_char n] else dec_str (n div 10) @ [digit_char (n mod 10)])"

declare dec_str.simps [simp del]

definition zero_pad :: "nat \<Rightarrow> string \<Rightarrow> string" where
  "zero_pad w ds = replicate (w - length ds) (CHR ''0'') @ ds"

text \<open>
  The format \<^verbatim>\<open>{n:04d}\<close>: zeros fill up to width 4 after the sign, and the sign
  counts towards the width.
\<close>

definition format_04d :: "int \<Rightarrow> string" where
  "format_04d n =
     (if n < 0 then CHR ''-'' # zero_pad 3 (dec_str (nat (- n))) else zero_pad 4 (dec_str (nat n)))"

subsection \<open>generate_id\<close>

text \<open>\<^verbatim>\<open>s[-4:]\<close>: the last four characters, or all of a shorter string.\<close>

definition last4 :: "string \<Rightarrow> string" where
  "last4 s = drop (length s - 4) s"

text \<open>
  \<^verbatim>\<open>existing_ids.sort()\<close> sorts the caller's list in place, so the function
  returns, beside its result, the list as the call leaves it. The sort happens
  before \<^verbatim>\<open>int()\<close> can raise.
\<close>

definition generate_id :: "string \<Rightarrow> string list \<Rightarrow> (error + string) \<times> string list" where
  "generate_id prefix existing_ids =
     (let ids = sort existing_ids;
          new_id = (if ids = [] then Inr 1
                    else (case py_int (last4 (last ids)) of
                            Inl e \<Rightarrow> Inl e
                          | Inr n \<Rightarrow> Inr (n + 1)))
      in (case new_id of
            Inl e \<Rightarrow> Inl e
          | Inr n \<Rightarrow> Inr (prefix @ ''_'' @ format_04d n), ids))"

subsection \<open>search_items\<close>

text \<open>
  The inner loop over the criteria. A mismatch clears \<^verbatim>\<open>match\<close> but does not
  leave the loop, so a later criterion is still evaluated and can still raise.
  \<^verbatim>\<open>key not in item\<close> is tested first; then the item's value is lowered, then
  the criterion's.
\<close>

fun match_loop :: "dict \<Rightarrow> dict \<Rightarrow> bool \<Rightarrow> error + bool" where
  "match_loop item [] m = Inr m"
| "match_loop item ((key, v) # cs) m =
     (case map_of item key of
        None \<Rightarrow> match_loop item cs False
      | Some iv \<Rightarrow>
          (case py_lower iv of
             Inl e \<Rightarrow> Inl e
           | Inr l \<Rightarrow>
               (case py_lower v of
                  Inl e \<Rightarrow> Inl e
                | Inr r \<Rightarrow> match_loop item cs (if l \<noteq> r then False else m))))"

text \<open>The outer loop over the items.\<close>

fun search_loop :: "dict list \<Rightarrow> dict \<Rightarrow> error + dict list" where
  "search_loop [] criteria = Inr []"
| "search_loop (item # items) criteria =
     (case match_loop item criteria True of
        Inl e \<Rightarrow> Inl e
      | Inr m \<Rightarrow>
          (case search_loop items criteria of
             Inl e \<Rightarrow> Inl e
           | Inr result_list \<Rightarrow> Inr (if m then item # result_list else result_list)))"

text \<open>
  \<^verbatim>\<open>search_items(items, **criteria)\<close>, called with the list in first position and
  the criteria as keywords: a criterion named \<^verbatim>\<open>items\<close> is a second value for the
  first parameter, and the call raises before the body runs.
\<close>

definition search_items :: "dict list \<Rightarrow> dict \<Rightarrow> error + dict list" where
  "search_items items criteria =
     (if ''items'' \<in> set (map fst criteria) then Inl TypeError else search_loop items criteria)"

section \<open>Part 2: Book\<close>

record book =
  book_id :: string
  title :: string
  author :: string
  genre :: string
  available :: bool

definition GENRES :: "string list" where
  "GENRES = [''Fiction'', ''Non-Fiction'', ''Science'', ''History'', ''Technology'']"

definition Book_init :: "string \<Rightarrow> string \<Rightarrow> string \<Rightarrow> string \<Rightarrow> bool \<Rightarrow> error + book" where
  "Book_init bid t a g av =
     (if g \<in> set GENRES
      then Inr \<lparr>book_id = bid, title = t, author = a, genre = g, available = av\<rparr>
      else Inl InvalidGenre)"

definition Book_to_dict :: "book \<Rightarrow> dict" where
  "Book_to_dict b =
     [(''book_id'', VStr (book_id b)), (''title'', VStr (title b)), (''author'', VStr (author b)),
      (''genre'', VStr (genre b)), (''available'', VBool (available b))]"

text \<open>
  The five lookups run left to right, each raising \<^verbatim>\<open>KeyError\<close> on a missing key;
  then the constructor checks the genre before it stores anything, so a genre
  that is no string of the list is refused whatever the other values are.
\<close>

definition Book_from_dict :: "dict \<Rightarrow> error + book" where
  "Book_from_dict data =
     (case getitem data ''book_id'' of Inl e \<Rightarrow> Inl e | Inr i \<Rightarrow>
     (case getitem data ''title'' of Inl e \<Rightarrow> Inl e | Inr t \<Rightarrow>
     (case getitem data ''author'' of Inl e \<Rightarrow> Inl e | Inr a \<Rightarrow>
     (case getitem data ''genre'' of Inl e \<Rightarrow> Inl e | Inr g \<Rightarrow>
     (case getitem data ''available'' of Inl e \<Rightarrow> Inl e | Inr av \<Rightarrow>
        (case g of
           VStr g' \<Rightarrow>
             if g' \<in> set GENRES then
               (case (i, t, a, av) of
                  (VStr i', VStr t', VStr a', VBool av') \<Rightarrow> Book_init i' t' a' g' av'
                | _ \<Rightarrow> Inl IllTyped)
             else Inl InvalidGenre
         | _ \<Rightarrow> Inl InvalidGenre))))))"

section \<open>Part 3: Borrower\<close>

record borrower =
  borrower_id :: string
  name :: string
  email :: string
  borrowed_books :: "string list"

definition MAX_BOOKS :: nat where
  "MAX_BOOKS = 3"

text \<open>\<^verbatim>\<open>borrowed_books or []\<close>: \<^verbatim>\<open>None\<close> and the empty list both give an empty list.\<close>

definition Borrower_init :: "string \<Rightarrow> string \<Rightarrow> string \<Rightarrow> string list option \<Rightarrow> borrower" where
  "Borrower_init wid n e bs =
     \<lparr>borrower_id = wid, name = n, email = e,
      borrowed_books = (case bs of None \<Rightarrow> [] | Some xs \<Rightarrow> if xs \<noteq> [] then xs else [])\<rparr>"

definition can_borrow :: "borrower \<Rightarrow> bool" where
  "can_borrow w = (length (borrowed_books w) < MAX_BOOKS)"

definition Borrower_borrow_book :: "borrower \<Rightarrow> string \<Rightarrow> bool \<times> borrower" where
  "Borrower_borrow_book w bid =
     (if can_borrow w then (True, w\<lparr>borrowed_books := borrowed_books w @ [bid]\<rparr>)
      else (False, w))"

text \<open>\<^verbatim>\<open>list.remove\<close> deletes the first occurrence.\<close>

definition Borrower_return_book :: "borrower \<Rightarrow> string \<Rightarrow> bool \<times> borrower" where
  "Borrower_return_book w bid =
     (if bid \<in> set (borrowed_books w) then (True, w\<lparr>borrowed_books := remove1 bid (borrowed_books w)\<rparr>)
      else (False, w))"

definition Borrower_to_dict :: "borrower \<Rightarrow> dict" where
  "Borrower_to_dict w =
     [(''borrower_id'', VStr (borrower_id w)), (''name'', VStr (name w)), (''email'', VStr (email w)),
      (''borrowed_books'', VList (map VStr (borrowed_books w)))]"

fun str_of :: "pyval \<Rightarrow> string option" where
  "str_of (VStr s) = Some s"
| "str_of _ = None"

fun strs_of :: "pyval list \<Rightarrow> string list option" where
  "strs_of [] = Some []"
| "strs_of (v # vs) =
     (case str_of v of None \<Rightarrow> None
      | Some s \<Rightarrow> (case strs_of vs of None \<Rightarrow> None | Some ss \<Rightarrow> Some (s # ss)))"

text \<open>
  The four lookups, then the constructor, which stores what it gets and raises
  nothing. A false value under \<^verbatim>\<open>borrowed_books\<close> becomes the empty list.
\<close>

definition Borrower_from_dict :: "dict \<Rightarrow> error + borrower" where
  "Borrower_from_dict data =
     (case getitem data ''borrower_id'' of Inl e \<Rightarrow> Inl e | Inr i \<Rightarrow>
     (case getitem data ''name'' of Inl e \<Rightarrow> Inl e | Inr n \<Rightarrow>
     (case getitem data ''email'' of Inl e \<Rightarrow> Inl e | Inr m \<Rightarrow>
     (case getitem data ''borrowed_books'' of Inl e \<Rightarrow> Inl e | Inr bs \<Rightarrow>
        (case (i, n, m) of
           (VStr i', VStr n', VStr m') \<Rightarrow>
             if \<not> truthy bs then Inr (Borrower_init i' n' m' None)
             else (case bs of
                     VList vs \<Rightarrow>
                       (case strs_of vs of
                          None \<Rightarrow> Inl IllTyped
                        | Some ss \<Rightarrow> Inr (Borrower_init i' n' m' (Some ss)))
                   | _ \<Rightarrow> Inl IllTyped)
         | _ \<Rightarrow> Inl IllTyped)))))"

section \<open>Part 4: Library\<close>

text \<open>
  A value of one of the two collections is either an object of the class, as
  \<^verbatim>\<open>add_book\<close> and \<^verbatim>\<open>add_borrower\<close> store it, or a decoded JSON value, as
  \<^verbatim>\<open>load\<close> stores it. No JSON value (mapping, list, string, number, boolean,
  null) has an attribute \<^verbatim>\<open>available\<close>, \<^verbatim>\<open>borrowed_books\<close>, \<^verbatim>\<open>can_borrow\<close> or
  \<^verbatim>\<open>to_dict\<close>, nor accepts a new attribute: reading or setting one raises
  \<^verbatim>\<open>AttributeError\<close>.
\<close>

datatype 'a entry = Obj 'a | Raw pyval

text \<open>
  The state threaded through the methods: the attributes of the \<^verbatim>\<open>Library\<close>
  object and the two storage documents. A document is \<open>None\<close> while its file does
  not exist; otherwise it is the mapping \<^verbatim>\<open>json.load\<close> decodes from the file
  (the layout \<^verbatim>\<open>save\<close> writes: a JSON object at top level), and
  \<^verbatim>\<open>json.dump\<close> followed by \<^verbatim>\<open>json.load\<close> gives back the mapping written.
\<close>

record library =
  lib_name :: string
  books :: "(string \<times> book entry) list"
  borrowers :: "(string \<times> borrower entry) list"
  books_file :: "dict option"
  borrowers_file :: "dict option"

definition raw_items :: "dict \<Rightarrow> (string \<times> 'a entry) list" where
  "raw_items d = map (\<lambda>(k, v). (k, Raw v)) d"

text \<open>
  \<^verbatim>\<open>load\<close>: each collection becomes what \<^verbatim>\<open>json.load\<close> returns, as it is; a
  missing file leaves the attribute alone.
\<close>

definition load :: "library \<Rightarrow> library" where
  "load s =
     (let s1 = (case books_file s of None \<Rightarrow> s | Some d \<Rightarrow> s\<lparr>books := raw_items d\<rparr>)
      in (case borrowers_file s1 of None \<Rightarrow> s1 | Some d \<Rightarrow> s1\<lparr>borrowers := raw_items d\<rparr>))"

text \<open>
  \<^verbatim>\<open>Library(name, data_dir)\<close>, the directory given by the two documents found in
  it.
\<close>

definition Library_init :: "string \<Rightarrow> dict option \<Rightarrow> dict option \<Rightarrow> library" where
  "Library_init n bdoc wdoc =
     load \<lparr>lib_name = n, books = [], borrowers = [], books_file = bdoc, borrowers_file = wdoc\<rparr>"

text \<open>
  The comprehension \<^verbatim>\<open>{k: v.to_dict() for k, v in coll.items()}\<close>: the first value
  that is no object of the class raises.
\<close>

fun to_dicts :: "('a \<Rightarrow> dict) \<Rightarrow> (string \<times> 'a entry) list \<Rightarrow> error + dict" where
  "to_dicts f [] = Inr []"
| "to_dicts f ((k, Obj x) # rest) =
     (case to_dicts f rest of Inl e \<Rightarrow> Inl e | Inr d \<Rightarrow> Inr ((k, VDict (f x)) # d))"
| "to_dicts f ((k, Raw v) # rest) = Inl AttributeError"

text \<open>
  \<^verbatim>\<open>save\<close>: the books are serialised and their file is written before the
  borrowers are serialised, so a failure on a borrower leaves the books file
  already rewritten.
\<close>

definition save :: "library \<Rightarrow> (error + unit) \<times> library" where
  "save s =
     (case to_dicts Book_to_dict (books s) of
        Inl e \<Rightarrow> (Inl e, s)
      | Inr bd \<Rightarrow>
          (let s1 = s\<lparr>books_file := Some bd\<rparr>
           in (case to_dicts Borrower_to_dict (borrowers s1) of
                 Inl e \<Rightarrow> (Inl e, s1)
               | Inr wd \<Rightarrow> (Inr (), s1\<lparr>borrowers_file := Some wd\<rparr>))))"

text \<open>
  \<^verbatim>\<open>add_book\<close>: the id is generated from a fresh copy of the keys (the in-place
  sort touches the copy only), then the constructor validates the genre, then
  the book is stored and everything is saved.
\<close>

definition add_book :: "string \<Rightarrow> string \<Rightarrow> string \<Rightarrow> library \<Rightarrow> (error + book) \<times> library" where
  "add_book t a g s =
     (case fst (generate_id ''BOOK'' (map fst (books s))) of
        Inl e \<Rightarrow> (Inl e, s)
      | Inr new_id \<Rightarrow>
          (case Book_init new_id t a g True of
             Inl e \<Rightarrow> (Inl e, s)
           | Inr new_book \<Rightarrow>
               (let s1 = s\<lparr>books := AList.update (book_id new_book) (Obj new_book) (books s)\<rparr>
                in (case save s1 of
                      (Inl e, s2) \<Rightarrow> (Inl e, s2)
                    | (Inr u, s2) \<Rightarrow> (Inr new_book, s2)))))"

definition add_borrower :: "string \<Rightarrow> string \<Rightarrow> library \<Rightarrow> (error + borrower) \<times> library" where
  "add_borrower n e s =
     (case fst (generate_id ''USER'' (map fst (borrowers s))) of
        Inl err \<Rightarrow> (Inl err, s)
      | Inr new_id \<Rightarrow>
          (let new_borrower = Borrower_init new_id n e None;
               s1 = s\<lparr>borrowers := AList.update (borrower_id new_borrower) (Obj new_borrower) (borrowers s)\<rparr>
           in (case save s1 of
                 (Inl err, s2) \<Rightarrow> (Inl err, s2)
               | (Inr u, s2) \<Rightarrow> (Inr new_borrower, s2))))"

definition checkout_book :: "string \<Rightarrow> string \<Rightarrow> library \<Rightarrow> (error + bool) \<times> library" where
  "checkout_book bid wid s =
     (case map_of (books s) bid of
        None \<Rightarrow> (Inr False, s)
      | Some (Raw v) \<Rightarrow> (Inl AttributeError, s)
      | Some (Obj b) \<Rightarrow>
          if \<not> available b then (Inr False, s)
          else
            (case map_of (borrowers s) wid of
               None \<Rightarrow> (Inr False, s)
             | Some (Raw v) \<Rightarrow> (Inl AttributeError, s)
             | Some (Obj w) \<Rightarrow>
                 if \<not> can_borrow w then (Inr False, s)
                 else
                   (let s1 = s\<lparr>borrowers :=
                               AList.update wid (Obj (snd (Borrower_borrow_book w bid))) (borrowers s)\<rparr>;
                        s2 = s1\<lparr>books := AList.update bid (Obj (b\<lparr>available := False\<rparr>)) (books s1)\<rparr>
                    in (case save s2 of
                          (Inl e, s3) \<Rightarrow> (Inl e, s3)
                        | (Inr u, s3) \<Rightarrow> (Inr True, s3)))))"

text \<open>
  \<^verbatim>\<open>return_book\<close>: both keys are looked up first; the borrower's list is changed
  before the book's flag is set, so a book that is no \<^verbatim>\<open>Book\<close> object raises
  after the list has lost the id.
\<close>

definition return_book :: "string \<Rightarrow> string \<Rightarrow> library \<Rightarrow> (error + bool) \<times> library" where
  "return_book bid wid s =
     (if map_of (books s) bid = None \<or> map_of (borrowers s) wid = None then (Inr False, s)
      else
        (case map_of (borrowers s) wid of
           None \<Rightarrow> (Inl KeyError, s)
         | Some (Raw v) \<Rightarrow> (Inl AttributeError, s)
         | Some (Obj w) \<Rightarrow>
             if bid \<notin> set (borrowed_books w) then (Inr False, s)
             else
               (let s1 = s\<lparr>borrowers :=
                           AList.update wid (Obj (snd (Borrower_return_book w bid))) (borrowers s)\<rparr>
                in (case map_of (books s1) bid of
                      None \<Rightarrow> (Inl KeyError, s1)
                    | Some (Raw v) \<Rightarrow> (Inl AttributeError, s1)
                    | Some (Obj b) \<Rightarrow>
                        (let s2 = s1\<lparr>books := AList.update bid (Obj (b\<lparr>available := True\<rparr>)) (books s1)\<rparr>
                         in (case save s2 of
                               (Inl e, s3) \<Rightarrow> (Inl e, s3)
                             | (Inr u, s3) \<Rightarrow> (Inr True, s3)))))))"

text \<open>
  \<^verbatim>\<open>search_books(self, **criteria)\<close>: a criterion named \<^verbatim>\<open>self\<close> clashes with the
  receiver and the call raises at once. Otherwise the books are serialised in
  the order of the collection, and the mappings, not the objects, are handed to
  \<^verbatim>\<open>search_items\<close> with the criteria as keywords and come back from it.
\<close>

fun booklist :: "(string \<times> book entry) list \<Rightarrow> error + dict list" where
  "booklist [] = Inr []"
| "booklist ((k, Obj b) # rest) =
     (case booklist rest of Inl e \<Rightarrow> Inl e | Inr ds \<Rightarrow> Inr (Book_to_dict b # ds))"
| "booklist ((k, Raw v) # rest) = Inl AttributeError"

definition search_books :: "dict \<Rightarrow> library \<Rightarrow> error + dict list" where
  "search_books criteria s =
     (if ''self'' \<in> set (map fst criteria) then Inl TypeError
      else (case booklist (books s) of
              Inl e \<Rightarrow> Inl e
            | Inr items \<Rightarrow> search_items items criteria))"

fun available_objs :: "(string \<times> book entry) list \<Rightarrow> error + book list" where
  "available_objs [] = Inr []"
| "available_objs ((k, Obj b) # rest) =
     (case available_objs rest of
        Inl e \<Rightarrow> Inl e
      | Inr bs \<Rightarrow> Inr (if available b then b # bs else bs))"
| "available_objs ((k, Raw v) # rest) = Inl AttributeError"

definition get_available_books :: "library \<Rightarrow> error + book list" where
  "get_available_books s = available_objs (books s)"

definition get_borrower_books :: "string \<Rightarrow> library \<Rightarrow> error + string list" where
  "get_borrower_books wid s =
     (case map_of (borrowers s) wid of
        None \<Rightarrow> Inl KeyError
      | Some (Raw v) \<Rightarrow> Inl AttributeError
      | Some (Obj w) \<Rightarrow> Inr (borrowed_books w))"

section \<open>Vocabulary of the properties\<close>

subsection \<open>Identifiers\<close>

text \<open>The number a string of decimal digits denotes.\<close>

definition dec_val :: "string \<Rightarrow> nat" where
  "dec_val ds = foldl (\<lambda>a c. 10 * a + digit_val c) 0 ds"

text \<open>
  An id of the expected form: the prefix, an underscore, and exactly four decimal
  digits.
\<close>

definition wf_id :: "string \<Rightarrow> string \<Rightarrow> bool" where
  "wf_id prefix x =
     (length x = length prefix + 5 \<and> take (length prefix + 1) x = prefix @ ''_''
      \<and> list_all is_digit (drop (length prefix + 1) x))"

subsection \<open>Library states\<close>

fun is_obj :: "'a entry \<Rightarrow> bool" where
  "is_obj (Obj x) = True"
| "is_obj (Raw v) = False"

text \<open>
  A library whose collections hold \<^verbatim>\<open>Book\<close> and \<^verbatim>\<open>Borrower\<close> objects, as the
  class documents them (\<^verbatim>\<open>book_id -> Book\<close>, \<^verbatim>\<open>borrower_id -> Borrower\<close>).
\<close>

definition typed :: "library \<Rightarrow> bool" where
  "typed s = (list_all (\<lambda>(k, e). is_obj e) (books s) \<and> list_all (\<lambda>(k, e). is_obj e) (borrowers s))"

text \<open>
  The four cases in which the specification has \<^verbatim>\<open>checkout_book\<close> answer false:
  unknown book, book not available, unknown borrower, borrower at the limit of
  three.
\<close>

definition checkout_refused :: "library \<Rightarrow> string \<Rightarrow> string \<Rightarrow> bool" where
  "checkout_refused s bid wid =
     (map_of (books s) bid = None
      \<or> (case map_of (books s) bid of Some (Obj b) \<Rightarrow> \<not> available b | _ \<Rightarrow> False)
      \<or> map_of (borrowers s) wid = None
      \<or> (case map_of (borrowers s) wid of Some (Obj w) \<Rightarrow> 3 \<le> length (borrowed_books w) | _ \<Rightarrow> False))"

text \<open>
  The three cases in which it has \<^verbatim>\<open>return_book\<close> answer false: unknown book,
  unknown borrower, book id not on this borrower's list.
\<close>

definition return_refused :: "library \<Rightarrow> string \<Rightarrow> string \<Rightarrow> bool" where
  "return_refused s bid wid =
     (map_of (books s) bid = None
      \<or> map_of (borrowers s) wid = None
      \<or> (case map_of (borrowers s) wid of Some (Obj w) \<Rightarrow> bid \<notin> set (borrowed_books w) | _ \<Rightarrow> False))"

text \<open>
  The document of a collection: each id with the serialised form of the object
  stored under it, in the order of the collection.
\<close>

fun document :: "('a \<Rightarrow> dict) \<Rightarrow> (string \<times> 'a entry) list \<Rightarrow> dict" where
  "document f [] = []"
| "document f ((k, Obj x) # rest) = (k, VDict (f x)) # document f rest"
| "document f ((k, Raw v) # rest) = document f rest"

text \<open>Both files exist and hold the documents of the collections in memory.\<close>

definition persisted :: "library \<Rightarrow> bool" where
  "persisted s =
     (books_file s = Some (document Book_to_dict (books s))
      \<and> borrowers_file s = Some (document Borrower_to_dict (borrowers s)))"

text \<open>
  A new \<^verbatim>\<open>Library\<close> object constructed over the files another one has left.
\<close>

definition reloaded :: "library \<Rightarrow> library" where
  "reloaded s = Library_init (lib_name s) (books_file s) (borrowers_file s)"

subsection \<open>Loans\<close>

text \<open>How often a book id occurs in the list of one entry of the borrower collection.\<close>

fun held :: "string \<Rightarrow> borrower entry \<Rightarrow> nat" where
  "held bid (Obj w) = count_list (borrowed_books w) bid"
| "held bid (Raw v) = 0"

text \<open>The occurrences of a book id over all borrowers, and the borrowers that list it.\<close>

definition copies :: "string \<Rightarrow> library \<Rightarrow> nat" where
  "copies bid s = sum_list (map (\<lambda>(wid, e). held bid e) (borrowers s))"

definition holders :: "string \<Rightarrow> library \<Rightarrow> (string \<times> borrower entry) list" where
  "holders bid s = filter (\<lambda>(wid, e). 0 < held bid e) (borrowers s)"

text \<open>
  The invariant of the specification: a book is unavailable exactly when one
  borrower lists its id.
\<close>

definition loan_invariant :: "library \<Rightarrow> bool" where
  "loan_invariant s =
     list_all (\<lambda>k. case map_of (books s) k of
                      Some (Obj b) \<Rightarrow> (\<not> available b) = (length (holders k s) = 1)
                    | _ \<Rightarrow> True)
       (map fst (books s))"

text \<open>
  The state of the loans in a library that was filled through its own methods:
  an available book is on no list, an unavailable one is on the lists once.
\<close>

definition loans_consistent :: "library \<Rightarrow> bool" where
  "loans_consistent s =
     list_all (\<lambda>k. case map_of (books s) k of
                      Some (Obj b) \<Rightarrow> copies k s = (if available b then 0 else 1)
                    | _ \<Rightarrow> True)
       (map fst (books s))"

definition within_limit :: "library \<Rightarrow> bool" where
  "within_limit s =
     list_all (\<lambda>(wid, e). case e of Obj w \<Rightarrow> length (borrowed_books w) \<le> 3 | Raw v \<Rightarrow> True)
       (borrowers s)"

subsection \<open>Sequences of calls\<close>

text \<open>
  The methods of \<^verbatim>\<open>Library\<close> that assign to the object or to the storage. The
  state after a call is the state the call leaves, whether it returned or raised.
  The accessors (\<^verbatim>\<open>search_books\<close>, \<^verbatim>\<open>get_available_books\<close>,
  \<^verbatim>\<open>get_borrower_books\<close>, \<^verbatim>\<open>get_statistics\<close>) assign nothing.
\<close>

datatype op =
    AddBook string string string
  | AddBorrower string string
  | Checkout string string
  | Return string string
  | Save
  | Load

fun step :: "op \<Rightarrow> library \<Rightarrow> library" where
  "step (AddBook t a g) s = snd (add_book t a g s)"
| "step (AddBorrower n e) s = snd (add_borrower n e s)"
| "step (Checkout bid wid) s = snd (checkout_book bid wid s)"
| "step (Return bid wid) s = snd (return_book bid wid s)"
| "step Save s = snd (save s)"
| "step Load s = load s"

fun run :: "op list \<Rightarrow> library \<Rightarrow> library" where
  "run [] s = s"
| "run (c # cs) s = run cs (step c s)"

fun is_loan :: "op \<Rightarrow> bool" where
  "is_loan (Checkout bid wid) = True"
| "is_loan (Return bid wid) = True"
| "is_loan _ = False"

subsection \<open>The scenario of the specification\<close>

text \<open>
  A library built in an empty directory, with one book and one borrower added.
\<close>

definition example_library :: library where
  "example_library =
     run [AddBook ''Dune'' ''Herbert'' ''Science'', AddBorrower ''Alice'' ''a@x.com'']
       (Library_init ''City'' None None)"

text \<open>The same library after a second borrower has joined and taken the book out.\<close>

definition example_loan :: library where
  "example_loan =
     run [AddBorrower ''Bob'' ''b@x.com'', Checkout ''BOOK_0001'' ''USER_0002''] example_library"

text \<open>The first library after three more books were added and Alice took three out.\<close>

definition example_full :: library where
  "example_full =
     run [AddBook ''Emma'' ''Austen'' ''Fiction'', AddBook ''Cosmos'' ''Sagan'' ''Science'',
          AddBook ''SPQR'' ''Beard'' ''History'',
          Checkout ''BOOK_0001'' ''USER_0001'', Checkout ''BOOK_0002'' ''USER_0001'',
          Checkout ''BOOK_0003'' ''USER_0001'']
       example_library"

text \<open>
  The ids \<^verbatim>\<open>BOOK_0001\<close>, \<^verbatim>\<open>BOOK_0002\<close>, ... in the order \<^verbatim>\<open>add_book\<close> hands them
  out, and the library built in an empty directory by that many calls of
  \<^verbatim>\<open>add_book\<close>.
\<close>

definition book_ids :: "nat \<Rightarrow> string list" where
  "book_ids n = map (\<lambda>i. ''BOOK_'' @ format_04d (int i)) [1..<Suc n]"

definition stocked :: "nat \<Rightarrow> library" where
  "stocked n =
     run (replicate n (AddBook ''Dune'' ''Herbert'' ''Science'')) (Library_init ''City'' None None)"

subsection \<open>Search\<close>

text \<open>
  One criterion holds of a serialised book: the key is present, both values are
  strings, and they are equal once lowered.
\<close>

definition satisfies :: "dict \<Rightarrow> string \<times> pyval \<Rightarrow> bool" where
  "satisfies item c =
     (case (map_of item (fst c), snd c) of
        (Some (VStr x), VStr y) \<Rightarrow> lower x = lower y
      | _ \<Rightarrow> False)"

text \<open>
  Criteria that name neither the boolean field nor a parameter of the two
  functions (\<^verbatim>\<open>self\<close>, \<^verbatim>\<open>items\<close>), and give a string for each of the four string
  fields they name.
\<close>

definition searchable :: "dict \<Rightarrow> bool" where
  "searchable criteria =
     list_all (\<lambda>(k, v). k \<noteq> ''available'' \<and> k \<noteq> ''self'' \<and> k \<noteq> ''items''
                 \<and> (if k \<in> {''book_id'', ''title'', ''author'', ''genre''} then str_of v \<noteq> None else True))
       criteria"

text \<open>The Book objects of a collection, in its order.\<close>

fun objs :: "(string \<times> 'a entry) list \<Rightarrow> 'a list" where
  "objs [] = []"
| "objs ((k, Obj x) # rest) = x # objs rest"
| "objs ((k, Raw v) # rest) = objs rest"

section \<open>Book and Borrower\<close>

lemma GENRES_set:
  "set GENRES = {''Fiction'', ''Non-Fiction'', ''Science'', ''History'', ''Technology''}"
  by (simp add: GENRES_def)

lemma strs_of_VStr: "strs_of (map VStr xs) = Some xs"
  by (induction xs) simp_all

lemma add_book_invalid_genre:
  assumes "g \<notin> set GENRES"
  shows "add_book t a g s =
           (Inl (case fst (generate_id ''BOOK'' (map fst (books s))) of
                   Inl e \<Rightarrow> e | Inr new_id \<Rightarrow> InvalidGenre), s)"
proof (cases "fst (generate_id ''BOOK'' (map fst (books s)))")
  case (Inl e)
  then show ?thesis by (simp add: add_book_def)
next
  case (Inr new_id)
  with assms show ?thesis by (simp add: add_book_def Book_init_def)
qed

text \<open>
  Claim C6. Constructing a Book succeeds exactly when the genre is one of
  Fiction, Non-Fiction, Science, History, Technology. For any other string the
  constructor raises and yields no object, and \<^verbatim>\<open>add_book\<close> called with it
  raises and leaves the whole state as it was: the collection (from which the
  next id is computed) and both storage documents. The error is the
  constructor's, unless the id could not be generated in the first place.
\<close>

theorem Book_genre_validation:
  "((\<exists>b. Book_init bid t a g av = Inr b) \<longleftrightarrow>
      g \<in> {''Fiction'', ''Non-Fiction'', ''Science'', ''History'', ''Technology''})
   \<and> (g \<notin> {''Fiction'', ''Non-Fiction'', ''Science'', ''History'', ''Technology''} \<longrightarrow>
        Book_init bid t a g av = Inl InvalidGenre
        \<and> add_book t a g s =
            (Inl (case fst (generate_id ''BOOK'' (map fst (books s))) of
                    Inl e \<Rightarrow> e | Inr new_id \<Rightarrow> InvalidGenre), s))"
proof -
  have "(\<exists>b. Book_init bid t a g av = Inr b) \<longleftrightarrow> g \<in> set GENRES"
    by (simp add: Book_init_def)
  moreover have "Book_init bid t a g av = Inl InvalidGenre" if "g \<notin> set GENRES"
    using that by (simp add: Book_init_def)
  moreover have "add_book t a g s =
            (Inl (case fst (generate_id ''BOOK'' (map fst (books s))) of
                    Inl e \<Rightarrow> e | Inr new_id \<Rightarrow> InvalidGenre), s)" if "g \<notin> set GENRES"
    using that by (rule add_book_invalid_genre)
  ultimately show ?thesis
    unfolding GENRES_set [symmetric] by blast
qed

theorem Book_genre_validation_witness:
  "''Poetry'' \<notin> {''Fiction'', ''Non-Fiction'', ''Science'', ''History'', ''Technology''}
   \<and> Book_init ''BOOK_0002'' ''Odes'' ''Keats'' ''Poetry'' True = Inl InvalidGenre
   \<and> add_book ''Odes'' ''Keats'' ''Poetry'' example_library = (Inl InvalidGenre, example_library)"
proof -
  have g: "''Poetry'' \<notin> {''Fiction'', ''Non-Fiction'', ''Science'', ''History'', ''Technology''}"
    by simp
  have i: "fst (generate_id ''BOOK'' (map fst (books example_library))) = Inr ''BOOK_0002''"
    by code_simp
  from g show ?thesis
    using Book_genre_validation [of "''BOOK_0002''" "''Odes''" "''Keats''" "''Poetry''" True
        example_library]
    by (simp add: i)
qed

text \<open>
  Claim C7. Serialising a Book or a Borrower and deserialising the mapping gives
  back an object with the same field values; for a Book the genre is validated
  again, so the mapping of a record whose genre is outside the list is refused.
\<close>

theorem from_dict_to_dict_roundtrip:
  "Book_from_dict (Book_to_dict b) = (if genre b \<in> set GENRES then Inr b else Inl InvalidGenre)
   \<and> (Book_init bid t a g av = Inr b \<longrightarrow> Book_from_dict (Book_to_dict b) = Inr b)
   \<and> Borrower_from_dict (Borrower_to_dict w) = Inr w"
proof -
  have book: "Book_from_dict (Book_to_dict b) = (if genre b \<in> set GENRES then Inr b else Inl InvalidGenre)"
    by (simp add: Book_from_dict_def Book_to_dict_def getitem_def Book_init_def)
  have "genre b \<in> set GENRES" if "Book_init bid t a g av = Inr b"
    using that by (auto simp: Book_init_def split: if_splits)
  with book have built: "Book_init bid t a g av = Inr b \<longrightarrow> Book_from_dict (Book_to_dict b) = Inr b"
    by simp
  have "Borrower_from_dict (Borrower_to_dict w) = Inr w"
    by (cases "borrowed_books w = []")
       (simp_all add: Borrower_from_dict_def Borrower_to_dict_def getitem_def Borrower_init_def
          strs_of_VStr)
  with book built show ?thesis by simp
qed

theorem from_dict_to_dict_roundtrip_witness:
  "Book_init ''BOOK_0001'' ''Dune'' ''Herbert'' ''Science'' False
     = Inr \<lparr>book_id = ''BOOK_0001'', title = ''Dune'', author = ''Herbert'', genre = ''Science'',
            available = False\<rparr>
   \<and> Book_from_dict (Book_to_dict
        \<lparr>book_id = ''BOOK_0001'', title = ''Dune'', author = ''Herbert'', genre = ''Science'',
         available = False\<rparr>)
     = Inr \<lparr>book_id = ''BOOK_0001'', title = ''Dune'', author = ''Herbert'', genre = ''Science'',
            available = False\<rparr>"
  using from_dict_to_dict_roundtrip [of
      "\<lparr>book_id = ''BOOK_0001'', title = ''Dune'', author = ''Herbert'', genre = ''Science'',
        available = False\<rparr>" "''BOOK_0001''" "''Dune''" "''Herbert''" "''Science''" False]
  by (simp add: Book_init_def GENRES_def)

section \<open>generate_id\<close>

lemma wf_id_iff:
  "wf_id p x \<longleftrightarrow> (\<exists>d. x = p @ ''_'' @ d \<and> length d = 4 \<and> list_all is_digit d)"
proof
  assume w: "wf_id p x"
  have "x = take (length p + 1) x @ drop (length p + 1) x" by simp
  with w have "x = p @ ''_'' @ drop (length p + 1) x" by (simp add: wf_id_def)
  moreover from w have "length (drop (length p + 1) x) = 4" by (simp add: wf_id_def)
  moreover from w have "list_all is_digit (drop (length p + 1) x)" by (simp add: wf_id_def)
  ultimately show "\<exists>d. x = p @ ''_'' @ d \<and> length d = 4 \<and> list_all is_digit d" by blast
next
  assume "\<exists>d. x = p @ ''_'' @ d \<and> length d = 4 \<and> list_all is_digit d"
  then show "wf_id p x" by (auto simp: wf_id_def)
qed

lemma py_digits_foldl:
  "list_all is_digit ds \<Longrightarrow> ds \<noteq> [] \<or> prev \<Longrightarrow>
   py_digits acc prev ds = Some (foldl (\<lambda>a c. 10 * a + digit_val c) acc ds)"
  by (induction ds arbitrary: acc prev) auto

lemma digit_not_space: "is_digit c \<Longrightarrow> \<not> int_space c"
  by (auto simp: is_digit_def int_space_def Let_def)

lemma digit_not_sign: "is_digit c \<Longrightarrow> c \<noteq> CHR ''-'' \<and> c \<noteq> CHR ''+''"
  by (auto simp: is_digit_def)

lemma dropWhile_none: "\<forall>c\<in>set s. \<not> P c \<Longrightarrow> dropWhile P s = s"
  by (cases s) auto

lemma int_strip_digits: "list_all is_digit ds \<Longrightarrow> int_strip ds = ds"
  by (simp add: int_strip_def dropWhile_none digit_not_space list_all_iff)

lemma py_int_digits:
  assumes "list_all is_digit ds" "ds \<noteq> []"
  shows "py_int ds = Inr (int (dec_val ds))"
proof -
  from assms obtain c cs where ds: "ds = c # cs" by (cases ds) auto
  with assms have c: "is_digit c" by simp
  have "py_digits 0 False ds = Some (dec_val ds)"
    using assms by (simp add: py_digits_foldl dec_val_def)
  with ds c digit_not_sign [OF c] assms show ?thesis
    by (simp add: py_int_def int_strip_digits del: py_digits.simps)
qed


lemma foldl_dec_shift:
  "foldl (\<lambda>a c. 10 * a + digit_val c) acc ds = acc * 10 ^ length ds + dec_val ds"
  unfolding dec_val_def
proof (induction ds arbitrary: acc rule: rev_induct)
  case Nil
  show ?case by simp
next
  case (snoc c ds)
  from snoc.IH [of acc] show ?case by (simp add: algebra_simps)
qed

lemma dec_val_Cons: "dec_val (c # cs) = digit_val c * 10 ^ length cs + dec_val cs"
  using foldl_dec_shift [of "digit_val c" cs] by (simp add: dec_val_def)

lemma dec_val_snoc: "dec_val (cs @ [c]) = 10 * dec_val cs + digit_val c"
  by (simp add: dec_val_def)

lemma digit_val_digit_char: "d < 10 \<Longrightarrow> digit_val (digit_char d) = d"
  by (simp add: digit_val_def digit_char_def)

lemma is_digit_digit_char: "d < 10 \<Longrightarrow> is_digit (digit_char d)"
  by (simp add: is_digit_def digit_char_def)

lemma dec_val_dec_str: "dec_val (dec_str n) = n"
proof (induction n rule: dec_str.induct)
  case (1 n)
  show ?case
  proof (cases "n < 10")
    case True
    then show ?thesis
      by (subst dec_str.simps) (simp add: dec_val_def digit_val_digit_char)
  next
    case False
    with 1 have "dec_val (dec_str (n div 10)) = n div 10" by simp
    with False show ?thesis
      by (subst dec_str.simps) (simp add: dec_val_snoc digit_val_digit_char)
  qed
qed

lemma dec_val_zeros: "dec_val (replicate k (CHR ''0'') @ ds) = dec_val ds"
  by (induction k) (simp_all add: dec_val_Cons digit_val_def)

lemma dec_val_zero_pad: "dec_val (zero_pad w (dec_str n)) = n"
  by (simp add: zero_pad_def dec_val_zeros dec_val_dec_str)

lemma format_04d_succ: "format_04d (int n + 1) = zero_pad 4 (dec_str (Suc n))"
proof -
  have "nat (int n + 1) = Suc n" by simp
  then show ?thesis by (simp add: format_04d_def)
qed

lemma dec_val_bound: "list_all is_digit ds \<Longrightarrow> dec_val ds < 10 ^ length ds"
proof (induction ds rule: rev_induct)
  case Nil
  show ?case by (simp add: dec_val_def)
next
  case (snoc c ds)
  then have "dec_val ds < 10 ^ length ds" and "digit_val c < 10"
    by (auto simp: is_digit_def digit_val_def)
  then show ?case by (simp add: dec_val_snoc)
qed

lemma digit_val_mono: "is_digit x \<Longrightarrow> is_digit y \<Longrightarrow> x < y \<Longrightarrow> digit_val x < digit_val y"
  by (auto simp: is_digit_def digit_val_def less_char_def)

lemma dec_val_mono:
  "length a = length b \<Longrightarrow> list_all is_digit a \<Longrightarrow> list_all is_digit b \<Longrightarrow> a \<le> b \<Longrightarrow>
   dec_val a \<le> dec_val b"
proof (induction a b rule: list_induct2)
  case Nil
  show ?case by simp
next
  case (Cons x xs y ys)
  from Cons.prems have dx: "is_digit x" and dy: "is_digit y"
    and dxs: "list_all is_digit xs" and dys: "list_all is_digit ys" by simp_all
  from Cons.prems have "x < y \<or> x = y \<and> xs \<le> ys" by simp
  then show ?case
  proof
    assume "x < y"
    then have "digit_val x + 1 \<le> digit_val y" using digit_val_mono [OF dx dy] by simp
    then have "(digit_val x + 1) * 10 ^ length xs \<le> digit_val y * 10 ^ length xs"
      by (rule mult_le_mono1)
    moreover have "dec_val xs < 10 ^ length xs" using dxs by (rule dec_val_bound)
    ultimately show ?thesis using Cons.hyps by (simp add: dec_val_Cons)
  next
    assume "x = y \<and> xs \<le> ys"
    with Cons.IH dxs dys Cons.hyps show ?thesis by (simp add: dec_val_Cons)
  qed
qed

lemma append_le_cancel: "(p @ a \<le> p @ b) \<longleftrightarrow> (a \<le> (b :: string))"
  by (induction p) simp_all

lemma last_sort_max:
  fixes ids :: "string list"
  assumes "x \<in> set ids"
  shows "x \<le> last (sort ids)"
proof -
  have s: "sorted (sort ids)" by simp
  from assms have ne: "sort ids \<noteq> []" by (metis empty_iff empty_set set_sort)
  from assms obtain i where i: "i < length ids" "sort ids ! i = x"
    using in_set_conv_nth [of x "sort ids"] by auto
  then have "sort ids ! i \<le> sort ids ! (length (sort ids) - 1)"
    using s by (intro sorted_nth_mono) auto
  with i ne show ?thesis by (simp add: last_conv_nth)
qed

lemma last_sort_in:
  fixes ids :: "string list"
  assumes "ids \<noteq> []"
  shows "last (sort ids) \<in> set ids"
proof -
  from assms have "sort ids \<noteq> []" by (metis length_0_conv length_sort)
  then have "last (sort ids) \<in> set (sort ids)" by (rule last_in_set)
  then show ?thesis by simp
qed

lemma generate_id_wf:
  assumes wf: "\<forall>x\<in>set ids. wf_id p x"
  shows "\<exists>r. fst (generate_id p ids) = Inr r \<and> r \<notin> set ids"
proof (cases "ids = []")
  case True
  then show ?thesis by (simp add: generate_id_def)
next
  case False
  define m where "m = last (sort ids)"
  have m_in: "m \<in> set ids" unfolding m_def using False by (rule last_sort_in)
  with wf have "wf_id p m" by blast
  then obtain dm where m: "m = p @ ''_'' @ dm" and ldm: "length dm = 4" and ddm: "list_all is_digit dm"
    by (auto simp: wf_id_iff)
  have l4: "last4 m = dm" using ldm by (simp add: last4_def m)
  from ldm have "dm \<noteq> []" by auto
  with ddm have pi: "py_int dm = Inr (int (dec_val dm))" by (rule py_int_digits)
  define r where "r = p @ ''_'' @ zero_pad 4 (dec_str (Suc (dec_val dm)))"
  have sne: "sort ids \<noteq> []" using False by (metis length_0_conv length_sort)
  have res: "fst (generate_id p ids) = Inr r"
    using sne l4 pi
    by (simp add: generate_id_def Let_def m_def [symmetric] r_def format_04d_succ)
  have "r \<notin> set ids"
  proof
    assume r_in: "r \<in> set ids"
    with wf have "wf_id p r" by blast
    then obtain dr where r': "r = p @ ''_'' @ dr" and ldr: "length dr = 4" and ddr: "list_all is_digit dr"
      by (auto simp: wf_id_iff)
    from r' have dr: "dr = zero_pad 4 (dec_str (Suc (dec_val dm)))" by (simp add: r_def)
    from r_in have "r \<le> m" unfolding m_def by (rule last_sort_max)
    then have "(p @ ''_'') @ dr \<le> (p @ ''_'') @ dm" by (simp add: r' m)
    then have "dr \<le> dm" by (simp only: append_le_cancel)
    with ldr ldm ddr ddm have "dec_val dr \<le> dec_val dm" by (intro dec_val_mono) simp_all
    moreover have "dec_val dr = Suc (dec_val dm)" by (simp add: dr dec_val_zero_pad)
    ultimately show False by simp
  qed
  with res show ?thesis by blast
qed


lemma update_fresh: "k \<notin> fst ` set al \<Longrightarrow> AList.update k v al = al @ [(k, v)]"
  by (induction al) auto

lemma books_save: "books (snd (save s)) = books s"
  by (simp add: save_def Let_def split: sum.splits)

lemma borrowers_save: "borrowers (snd (save s)) = borrowers s"
  by (simp add: save_def Let_def split: sum.splits)

lemma add_book_books:
  assumes "fst (generate_id ''BOOK'' (map fst (books s))) = Inr nid" "g \<in> set GENRES"
  shows "books (snd (add_book t a g s)) =
         AList.update nid (Obj \<lparr>book_id = nid, title = t, author = a, genre = g, available = True\<rparr>) (books s)"
proof -
  define s1 where "s1 = s\<lparr>books := AList.update nid
      (Obj \<lparr>book_id = nid, title = t, author = a, genre = g, available = True\<rparr>) (books s)\<rparr>"
  have "snd (add_book t a g s) = snd (save s1)"
    using assms by (simp add: add_book_def Book_init_def s1_def Let_def split: prod.splits sum.splits)
  then show ?thesis by (simp add: books_save s1_def)
qed

lemma add_borrower_borrowers:
  assumes "fst (generate_id ''USER'' (map fst (borrowers s))) = Inr nid"
  shows "borrowers (snd (add_borrower n e s)) =
         AList.update nid (Obj \<lparr>borrower_id = nid, name = n, email = e, borrowed_books = []\<rparr>) (borrowers s)"
proof -
  define s1 where "s1 = s\<lparr>borrowers := AList.update nid
      (Obj \<lparr>borrower_id = nid, name = n, email = e, borrowed_books = []\<rparr>) (borrowers s)\<rparr>"
  have "snd (add_borrower n e s) = snd (save s1)"
    using assms by (simp add: add_borrower_def Borrower_init_def s1_def Let_def split: prod.splits sum.splits)
  then show ?thesis by (simp add: borrowers_save s1_def)
qed

text \<open>
  Claim C9 as stated fails: the call reorders the list it is given.
\<close>

theorem generate_id_mutates_argument:
  "snd (generate_id ''BOOK'' [''BOOK_0002'', ''BOOK_0001'']) \<noteq> [''BOOK_0002'', ''BOOK_0001'']"
  by code_simp

text \<open>
  Claim C9, amended. The only effect of \<^verbatim>\<open>generate_id\<close> is to sort the list it
  receives in place: after the call the list holds the same ids, each as often
  as before, in ascending order, and it is unchanged exactly when it was sorted
  already.
\<close>

theorem generate_id_sorts_argument:
  "snd (generate_id prefix ids) = sort ids
   \<and> mset (snd (generate_id prefix ids)) = mset ids
   \<and> sorted (snd (generate_id prefix ids))
   \<and> (snd (generate_id prefix ids) = ids \<longleftrightarrow> sorted ids)"
proof -
  have s: "snd (generate_id prefix ids) = sort ids"
    by (simp add: generate_id_def Let_def)
  have "sort ids = ids \<longleftrightarrow> sorted ids"
    by (metis sorted_sort sorted_sort_id)
  with s show ?thesis by simp
qed

text \<open>
  When every existing id is the prefix, an underscore and four decimal digits
  (the empty list included), \<^verbatim>\<open>generate_id\<close> returns an id that is not in the
  list. So \<^verbatim>\<open>add_book\<close> and \<^verbatim>\<open>add_borrower\<close>, on a collection whose keys have
  that form, store the new object under a key that was not present: it is
  appended and no entry is replaced.
\<close>

lemma generate_id_fresh:
  "((\<forall>x\<in>set ids. wf_id prefix x) \<longrightarrow>
      (\<exists>r. fst (generate_id prefix ids) = Inr r \<and> r \<notin> set ids))
   \<and> ((\<forall>k\<in>fst ` set (books s). wf_id ''BOOK'' k) \<and> g \<in> set GENRES \<longrightarrow>
        (\<exists>nid. nid \<notin> fst ` set (books s)
           \<and> books (snd (add_book t a g s)) =
               books s @ [(nid, Obj \<lparr>book_id = nid, title = t, author = a, genre = g, available = True\<rparr>)]))
   \<and> ((\<forall>k\<in>fst ` set (borrowers s). wf_id ''USER'' k) \<longrightarrow>
        (\<exists>nid. nid \<notin> fst ` set (borrowers s)
           \<and> borrowers (snd (add_borrower n e s)) =
               borrowers s @ [(nid, Obj \<lparr>borrower_id = nid, name = n, email = e, borrowed_books = []\<rparr>)]))"
proof (intro conjI impI)
  assume "\<forall>x\<in>set ids. wf_id prefix x"
  then show "\<exists>r. fst (generate_id prefix ids) = Inr r \<and> r \<notin> set ids"
    by (rule generate_id_wf)
next
  assume h: "(\<forall>k\<in>fst ` set (books s). wf_id ''BOOK'' k) \<and> g \<in> set GENRES"
  then have "\<forall>x\<in>set (map fst (books s)). wf_id ''BOOK'' x" by simp
  then obtain nid where nid: "fst (generate_id ''BOOK'' (map fst (books s))) = Inr nid"
    and fresh: "nid \<notin> set (map fst (books s))"
    using generate_id_wf by blast
  from fresh have f: "nid \<notin> fst ` set (books s)" by simp
  from nid h have "books (snd (add_book t a g s)) =
      AList.update nid (Obj \<lparr>book_id = nid, title = t, author = a, genre = g, available = True\<rparr>) (books s)"
    by (intro add_book_books) simp_all
  with f show "\<exists>nid. nid \<notin> fst ` set (books s)
           \<and> books (snd (add_book t a g s)) =
               books s @ [(nid, Obj \<lparr>book_id = nid, title = t, author = a, genre = g, available = True\<rparr>)]"
    by (auto simp: update_fresh)
next
  assume "\<forall>k\<in>fst ` set (borrowers s). wf_id ''USER'' k"
  then have "\<forall>x\<in>set (map fst (borrowers s)). wf_id ''USER'' x" by simp
  then obtain nid where nid: "fst (generate_id ''USER'' (map fst (borrowers s))) = Inr nid"
    and fresh: "nid \<notin> set (map fst (borrowers s))"
    using generate_id_wf by blast
  from fresh have f: "nid \<notin> fst ` set (borrowers s)" by simp
  from nid have "borrowers (snd (add_borrower n e s)) =
      AList.update nid (Obj \<lparr>borrower_id = nid, name = n, email = e, borrowed_books = []\<rparr>) (borrowers s)"
    by (rule add_borrower_borrowers)
  with f show "\<exists>nid. nid \<notin> fst ` set (borrowers s)
           \<and> borrowers (snd (add_borrower n e s)) =
               borrowers s @ [(nid, Obj \<lparr>borrower_id = nid, name = n, email = e, borrowed_books = []\<rparr>)]"
    by (auto simp: update_fresh)
qed

text \<open>
  Once a fifth digit has appeared, the sorted list still ends in the largest
  four-digit id and the increment gives the five-digit id again.
\<close>

lemma generate_id_repeats_after_9999:
  "fst (generate_id ''BOOK'' [''BOOK_9999'', ''BOOK_10000'']) = Inr ''BOOK_10000''"
proof -
  have order: "sort [''BOOK_9999'', ''BOOK_10000''] = [''BOOK_10000'', ''BOOK_9999'']"
    by code_simp
  have parse: "py_int ''9999'' = Inr 9999"
    by (simp add: py_int_def int_strip_def int_space_def is_digit_def digit_val_def)
  have digits: "digit_char 0 = CHR ''0''" "digit_char (Suc 0) = CHR ''1''"
    by code_simp+
  have print: "format_04d 10000 = ''10000''"
    by (simp add: format_04d_def zero_pad_def dec_str.simps digits)
  show ?thesis
    by (simp add: generate_id_def order parse print last4_def)
qed

lemma is_digit_dec_str: "list_all is_digit (dec_str n)"
proof (induction n rule: dec_str.induct)
  case (1 n)
  show ?case
  proof (cases "n < 10")
    case True
    then show ?thesis by (subst dec_str.simps) (simp add: is_digit_digit_char)
  next
    case False
    with 1 have "list_all is_digit (dec_str (n div 10))" by simp
    with False show ?thesis by (subst dec_str.simps) (simp add: is_digit_digit_char)
  qed
qed

lemma length_dec_str: "n < 10 ^ k \<Longrightarrow> 0 < k \<Longrightarrow> length (dec_str n) \<le> k"
proof (induction n arbitrary: k rule: dec_str.induct)
  case (1 n)
  show ?case
  proof (cases "n < 10")
    case True
    with "1.prems" show ?thesis by (subst dec_str.simps) simp
  next
    case False
    from "1.prems" obtain j where k: "k = Suc j" by (cases k) auto
    with "1.prems" have "n div 10 < 10 ^ j" by (simp add: less_mult_imp_div_less mult.commute)
    moreover from False k "1.prems" have "0 < j" by (cases j) auto
    ultimately have "length (dec_str (n div 10)) \<le> j" using "1.IH" False by simp
    with False k show ?thesis by (subst dec_str.simps) simp
  qed
qed

lemma format_04d_int: "format_04d (int n) = zero_pad 4 (dec_str n)"
  by (simp add: format_04d_def)

lemma pad4_length: "n < 10000 \<Longrightarrow> length (zero_pad 4 (dec_str n)) = 4"
  using length_dec_str [of n 4] by (simp add: zero_pad_def)

lemma pad4_digits: "list_all is_digit (zero_pad 4 (dec_str n))"
proof -
  have "is_digit (CHR ''0'')" by (simp add: is_digit_def)
  then have "list_all is_digit (replicate k (CHR ''0''))" for k by (induction k) simp_all
  then show ?thesis by (simp add: zero_pad_def is_digit_dec_str)
qed

lemma dec_val_less:
  "length a = length b \<Longrightarrow> list_all is_digit a \<Longrightarrow> list_all is_digit b \<Longrightarrow> a < b \<Longrightarrow>
   dec_val a < dec_val b"
proof (induction a b rule: list_induct2)
  case Nil
  then show ?case by simp
next
  case (Cons x xs y ys)
  from Cons.prems have dx: "is_digit x" and dy: "is_digit y"
    and dxs: "list_all is_digit xs" and dys: "list_all is_digit ys" by simp_all
  from Cons.prems have "x < y \<or> x = y \<and> xs < ys" by simp
  then show ?case
  proof
    assume "x < y"
    then have "digit_val x + 1 \<le> digit_val y" using digit_val_mono [OF dx dy] by simp
    then have "(digit_val x + 1) * 10 ^ length xs \<le> digit_val y * 10 ^ length xs"
      by (rule mult_le_mono1)
    moreover have "dec_val xs < 10 ^ length xs" using dxs by (rule dec_val_bound)
    ultimately show ?thesis using Cons.hyps by (simp add: dec_val_Cons)
  next
    assume "x = y \<and> xs < ys"
    with Cons.IH dxs dys Cons.hyps show ?thesis by (simp add: dec_val_Cons)
  qed
qed

lemma lex_of_dec_val:
  assumes "length a = length b" "list_all is_digit a" "list_all is_digit b" "dec_val a \<le> dec_val b"
  shows "a \<le> b"
proof (rule ccontr)
  assume "\<not> a \<le> b"
  then have "b < a" by simp
  with assms have "dec_val b < dec_val a" by (intro dec_val_less) simp_all
  with assms(4) show False by simp
qed

lemma format_mono:
  assumes "i \<le> n" "n < 10000"
  shows "p @ ''_'' @ format_04d (int i) \<le> p @ ''_'' @ format_04d (int n)"
proof -
  from assms have i: "i < 10000" by simp
  have "zero_pad 4 (dec_str i) \<le> zero_pad 4 (dec_str n)"
    using assms i by (intro lex_of_dec_val) (simp_all add: pad4_length pad4_digits dec_val_zero_pad)
  then have "(p @ ''_'') @ zero_pad 4 (dec_str i) \<le> (p @ ''_'') @ zero_pad 4 (dec_str n)"
    by (simp only: append_le_cancel)
  then show ?thesis by (simp add: format_04d_int)
qed

lemma wf_id_format: "n < 10000 \<Longrightarrow> wf_id p (p @ ''_'' @ format_04d (int n))"
  unfolding wf_id_iff format_04d_int using pad4_length pad4_digits by blast

lemma last_sort_eq:
  fixes ids :: "string list"
  assumes "m \<in> set ids" "\<forall>x\<in>set ids. x \<le> m"
  shows "last (sort ids) = m"
proof -
  from assms(1) have ne: "ids \<noteq> []" by auto
  then have "last (sort ids) \<in> set ids" by (rule last_sort_in)
  with assms(2) have "last (sort ids) \<le> m" by blast
  moreover from assms(1) have "m \<le> last (sort ids)" by (rule last_sort_max)
  ultimately show ?thesis by simp
qed

lemma generate_id_after:
  assumes m: "q @ zero_pad 4 (dec_str n) \<in> set ids"
    and mx: "\<forall>x\<in>set ids. x \<le> q @ zero_pad 4 (dec_str n)"
    and n: "n < 10000"
  shows "fst (generate_id p ids) = Inr (p @ ''_'' @ format_04d (int (Suc n)))"
proof -
  have l: "last (sort ids) = q @ zero_pad 4 (dec_str n)" using m mx by (rule last_sort_eq)
  have l4: "last4 (q @ zero_pad 4 (dec_str n)) = zero_pad 4 (dec_str n)"
    using pad4_length [OF n] by (simp add: last4_def)
  have ne: "zero_pad 4 (dec_str n) \<noteq> []" using pad4_length [OF n] by auto
  have pi: "py_int (zero_pad 4 (dec_str n)) = Inr (int n)"
    using py_int_digits [OF pad4_digits ne] by (simp add: dec_val_zero_pad)
  from m have sne: "sort ids \<noteq> []" by (metis empty_iff empty_set set_sort)
  have "format_04d (int n + 1) = format_04d (int (Suc n))" by (simp add: add.commute)
  then show ?thesis
    using sne by (simp add: generate_id_def Let_def l l4 pi del: of_nat_Suc)
qed


lemma book_ids_Suc: "book_ids (Suc n) = book_ids n @ [''BOOK_'' @ format_04d (int (Suc n))]"
  by (simp add: book_ids_def del: of_nat_Suc)

lemma in_book_ids:
  "x \<in> set (book_ids n) \<longleftrightarrow> (\<exists>i. 1 \<le> i \<and> i \<le> n \<and> x = ''BOOK_'' @ format_04d (int i))"
  by (auto simp: book_ids_def simp del: of_nat_Suc)

lemma book_ids_wf: "n < 10000 \<Longrightarrow> \<forall>x\<in>set (book_ids n). wf_id ''BOOK'' x"
  using wf_id_format [of _ "''BOOK''"] by (auto simp: in_book_ids simp del: of_nat_Suc)

lemma generate_id_book_ids:
  assumes "n < 10000"
  shows "fst (generate_id ''BOOK'' (book_ids n)) = Inr (''BOOK_'' @ format_04d (int (Suc n)))"
proof (cases n)
  case 0
  have "format_04d 1 = format_04d (int (Suc 0))" by simp
  with 0 show ?thesis by (simp add: book_ids_def generate_id_def del: of_nat_Suc)
next
  case (Suc k)
  have m: "''BOOK_'' @ zero_pad 4 (dec_str n) \<in> set (book_ids n)"
    using Suc by (auto simp: in_book_ids format_04d_int simp del: of_nat_Suc)
  have mx: "\<forall>x\<in>set (book_ids n). x \<le> ''BOOK_'' @ zero_pad 4 (dec_str n)"
  proof
    fix x assume "x \<in> set (book_ids n)"
    then obtain i where i: "i \<le> n" and x: "x = ''BOOK_'' @ format_04d (int i)"
      by (auto simp: in_book_ids)
    from format_mono [OF i assms, of "''BOOK''"] show "x \<le> ''BOOK_'' @ zero_pad 4 (dec_str n)"
      by (simp add: x format_04d_int)
  qed
  from generate_id_after [OF m mx assms] show ?thesis by simp
qed

lemma run_append: "run (xs @ ys) s = run ys (run xs s)"
  by (induction xs arbitrary: s) simp_all

lemma stocked_Suc: "stocked (Suc n) = snd (add_book ''Dune'' ''Herbert'' ''Science'' (stocked n))"
proof -
  have "replicate (Suc n) x = replicate n x @ [x]" for x :: op
    by (simp add: replicate_append_same)
  then show ?thesis by (simp only: stocked_def run_append) simp
qed

lemma stocked_books:
  "n \<le> 10000 \<Longrightarrow>
   books (stocked n) =
     map (\<lambda>k. (k, Obj \<lparr>book_id = k, title = ''Dune'', author = ''Herbert'', genre = ''Science'',
                         available = True\<rparr>)) (book_ids n)"
proof (induction n)
  case 0
  show ?case by (simp add: stocked_def book_ids_def Library_init_def load_def)
next
  case (Suc n)
  then have n: "n < 10000" and bs: "books (stocked n) =
     map (\<lambda>k. (k, Obj \<lparr>book_id = k, title = ''Dune'', author = ''Herbert'', genre = ''Science'',
                         available = True\<rparr>)) (book_ids n)" by simp_all
  from bs have keys: "map fst (books (stocked n)) = book_ids n" by (simp add: comp_def)
  let ?nid = "''BOOK_'' @ format_04d (int (Suc n))"
  have gen: "fst (generate_id ''BOOK'' (map fst (books (stocked n)))) = Inr ?nid"
    using generate_id_book_ids [OF n] by (simp only: keys)
  have "\<exists>r. fst (generate_id ''BOOK'' (book_ids n)) = Inr r \<and> r \<notin> set (book_ids n)"
    using book_ids_wf [OF n] by (rule generate_id_wf)
  with gen keys have "?nid \<notin> set (book_ids n)" by simp
  with keys have fresh: "?nid \<notin> fst ` set (books (stocked n))" by (metis set_map)
  have g: "''Science'' \<in> set GENRES" by (simp add: GENRES_def)
  have "books (stocked (Suc n)) =
          books (stocked n) @ [(?nid, Obj \<lparr>book_id = ?nid, title = ''Dune'', author = ''Herbert'',
                                           genre = ''Science'', available = True\<rparr>)]"
    using add_book_books [OF gen g, of "''Dune''" "''Herbert''"] update_fresh [OF fresh]
    by (simp only: stocked_Suc)
  then show ?case by (simp add: bs book_ids_Suc del: of_nat_Suc)
qed

lemma stocked_keys: "n \<le> 10000 \<Longrightarrow> map fst (books (stocked n)) = book_ids n"
  by (simp add: stocked_books comp_def)

lemma map_of_keyed: "k \<in> set ks \<Longrightarrow> map_of (map (\<lambda>k. (k, f k)) ks) k = Some (f k)"
  by (induction ks) auto

lemma length_update_present: "k \<in> fst ` set al \<Longrightarrow> length (AList.update k v al) = length al"
  by (induction al) auto

lemma format_9999: "format_04d 9999 = ''9999''"
proof -
  have "digit_char 9 = CHR ''9''" by code_simp
  then show ?thesis by (simp add: format_04d_def zero_pad_def dec_str.simps)
qed

lemma format_10000: "format_04d 10000 = ''10000''"
proof -
  have "digit_char 0 = CHR ''0''" "digit_char (Suc 0) = CHR ''1''" by code_simp+
  then show ?thesis by (simp add: format_04d_def zero_pad_def dec_str.simps)
qed

lemma generate_id_book_ids_10000:
  "fst (generate_id ''BOOK'' (book_ids 10000)) = Inr ''BOOK_10000''"
proof -
  have "format_04d (int 9999) = zero_pad 4 (dec_str 9999)" by (rule format_04d_int)
  then have f: "format_04d 9999 = zero_pad 4 (dec_str 9999)" by simp
  then have z: "zero_pad 4 (dec_str 9999) = ''9999''" by (simp add: format_9999)
  have m: "''BOOK_'' @ zero_pad 4 (dec_str 9999) \<in> set (book_ids 10000)"
    unfolding in_book_ids format_04d_int by (intro exI [of _ 9999]) simp
  have mx: "\<forall>x\<in>set (book_ids 10000). x \<le> ''BOOK_'' @ zero_pad 4 (dec_str 9999)"
  proof
    fix x assume "x \<in> set (book_ids 10000)"
    then obtain i where i: "i \<le> 10000" and x: "x = ''BOOK_'' @ format_04d (int i)"
      unfolding in_book_ids by blast
    show "x \<le> ''BOOK_'' @ zero_pad 4 (dec_str 9999)"
    proof (cases "i \<le> 9999")
      case True
      from format_mono [OF True, of "''BOOK''"] show ?thesis
        by (simp add: x f)
    next
      case False
      with i have "i = 10000" by simp
      then have "x = ''BOOK_10000''" using format_10000 by (simp add: x)
      moreover have "''BOOK_10000'' \<le> ''BOOK_9999''" by code_simp
      ultimately show ?thesis by (simp only: z) simp
    qed
  qed
  have "(9999::nat) < 10000" by simp
  from generate_id_after [OF m mx this, of "''BOOK''"] show ?thesis
    by (simp add: format_10000)
qed

text \<open>
  Claim C10 against the code. The first half holds (\<open>generate_id_fresh\<close>). The
  second does not. A library that started empty holds, after ten thousand calls
  of \<^verbatim>\<open>add_book\<close>, the ids \<^verbatim>\<open>BOOK_0001\<close> to \<^verbatim>\<open>BOOK_9999\<close> and \<^verbatim>\<open>BOOK_10000\<close>;
  sorted as strings they end in \<^verbatim>\<open>BOOK_9999\<close>, so the next call generates
  \<^verbatim>\<open>BOOK_10000\<close> again and stores the new book under that key: the collection
  keeps its ten thousand entries and the book that was there is gone.
\<close>

theorem add_book_reuses_id:
  "length (books (stocked 10000)) = 10000
   \<and> map_of (books (stocked 10000)) ''BOOK_10000''
       = Some (Obj \<lparr>book_id = ''BOOK_10000'', title = ''Dune'', author = ''Herbert'', genre = ''Science'',
                    available = True\<rparr>)
   \<and> fst (generate_id ''BOOK'' (map fst (books (stocked 10000)))) = Inr ''BOOK_10000''
   \<and> books (snd (add_book ''Emma'' ''Austen'' ''Fiction'' (stocked 10000)))
       = AList.update ''BOOK_10000''
           (Obj \<lparr>book_id = ''BOOK_10000'', title = ''Emma'', author = ''Austen'', genre = ''Fiction'',
                 available = True\<rparr>) (books (stocked 10000))
   \<and> length (books (snd (add_book ''Emma'' ''Austen'' ''Fiction'' (stocked 10000)))) = 10000
   \<and> map_of (books (snd (add_book ''Emma'' ''Austen'' ''Fiction'' (stocked 10000)))) ''BOOK_10000''
       = Some (Obj \<lparr>book_id = ''BOOK_10000'', title = ''Emma'', author = ''Austen'', genre = ''Fiction'',
                    available = True\<rparr>)
   \<and> fst (generate_id ''BOOK'' [''BOOK_9999'', ''BOOK_10000'']) = Inr ''BOOK_10000''"
proof -
  let ?s = "stocked 10000"
  have le: "(10000::nat) \<le> 10000" by simp
  note bs = stocked_books [OF le]
  note keys = stocked_keys [OF le]
  have mem: "''BOOK_10000'' \<in> set (book_ids 10000)"
    unfolding in_book_ids by (intro exI [of _ 10000]) (simp add: format_10000)
  have len: "length (books ?s) = 10000"
    by (simp only: bs length_map) (simp add: book_ids_def)
  have old: "map_of (books ?s) ''BOOK_10000''
       = Some (Obj \<lparr>book_id = ''BOOK_10000'', title = ''Dune'', author = ''Herbert'', genre = ''Science'',
                    available = True\<rparr>)"
    by (simp only: bs map_of_keyed [OF mem])
  have gen: "fst (generate_id ''BOOK'' (map fst (books ?s))) = Inr ''BOOK_10000''"
    by (simp only: keys generate_id_book_ids_10000)
  have g: "''Fiction'' \<in> set GENRES" by (simp add: GENRES_def)
  note upd = add_book_books [OF gen g, of "''Emma''" "''Austen''"]
  from mem keys have present: "''BOOK_10000'' \<in> fst ` set (books ?s)" by (metis set_map)
  have len': "length (books (snd (add_book ''Emma'' ''Austen'' ''Fiction'' ?s))) = 10000"
    by (simp only: upd length_update_present [OF present] len)
  have new: "map_of (books (snd (add_book ''Emma'' ''Austen'' ''Fiction'' ?s))) ''BOOK_10000''
       = Some (Obj \<lparr>book_id = ''BOOK_10000'', title = ''Emma'', author = ''Austen'', genre = ''Fiction'',
                    available = True\<rparr>)"
    by (simp only: upd update_conv') simp
  have two: "fst (generate_id ''BOOK'' [''BOOK_9999'', ''BOOK_10000'']) = Inr ''BOOK_10000''"
    by (rule generate_id_repeats_after_9999)
  from len old gen upd len' new two show ?thesis by (intro conjI)
qed

section \<open>Library: checking out and returning\<close>

lemma to_dicts_typed:
  "list_all (\<lambda>(k, e). is_obj e) xs \<Longrightarrow> to_dicts f xs = Inr (document f xs)"
  by (induction f xs rule: to_dicts.induct) auto

lemma save_typed:
  assumes "typed s"
  shows "\<exists>s'. save s = (Inr (), s') \<and> books s' = books s \<and> borrowers s' = borrowers s
            \<and> lib_name s' = lib_name s \<and> persisted s'"
proof -
  from assms have bd: "to_dicts Book_to_dict (books s) = Inr (document Book_to_dict (books s))"
    by (simp add: typed_def to_dicts_typed)
  from assms have wd: "to_dicts Borrower_to_dict (borrowers s) = Inr (document Borrower_to_dict (borrowers s))"
    by (simp add: typed_def to_dicts_typed)
  from bd wd show ?thesis by (simp add: save_def persisted_def)
qed

lemma all_obj_update:
  "list_all (\<lambda>(k, e). is_obj e) xs \<Longrightarrow> list_all (\<lambda>(k, e). is_obj e) (AList.update k (Obj x) xs)"
  by (induction xs) auto

lemma map_of_all_obj:
  "list_all (\<lambda>(k, e). is_obj e) xs \<Longrightarrow> map_of xs k = Some e \<Longrightarrow> \<exists>x. e = Obj x"
  by (induction xs) (auto split: if_splits elim: is_obj.elims)

lemma checkout_book_refused:
  assumes "typed s" "checkout_refused s bid wid"
  shows "checkout_book bid wid s = (Inr False, s)"
proof -
  have b: "\<And>e. map_of (books s) bid = Some e \<Longrightarrow> \<exists>x. e = Obj x"
    using assms(1) by (auto simp: typed_def dest: map_of_all_obj)
  have w: "\<And>e. map_of (borrowers s) wid = Some e \<Longrightarrow> \<exists>x. e = Obj x"
    using assms(1) by (auto simp: typed_def dest: map_of_all_obj)
  show ?thesis
    using assms(2) b w
    by (auto simp: checkout_refused_def checkout_book_def can_borrow_def MAX_BOOKS_def
        split: option.splits entry.splits)
qed

lemma checkout_book_accepted:
  assumes t: "typed s" and nr: "\<not> checkout_refused s bid wid"
  shows "\<exists>b w s'. map_of (books s) bid = Some (Obj b) \<and> map_of (borrowers s) wid = Some (Obj w)
           \<and> checkout_book bid wid s = (Inr True, s')
           \<and> borrowers s' = AList.update wid (Obj (w\<lparr>borrowed_books := borrowed_books w @ [bid]\<rparr>)) (borrowers s)
           \<and> books s' = AList.update bid (Obj (b\<lparr>available := False\<rparr>)) (books s)
           \<and> lib_name s' = lib_name s \<and> persisted s'"
proof -
  from nr obtain eb where eb: "map_of (books s) bid = Some eb" by (auto simp: checkout_refused_def)
  with t obtain b where b: "map_of (books s) bid = Some (Obj b)"
    by (auto simp: typed_def dest: map_of_all_obj)
  from nr obtain ew where ew: "map_of (borrowers s) wid = Some ew" by (auto simp: checkout_refused_def)
  with t obtain w where w: "map_of (borrowers s) wid = Some (Obj w)"
    by (auto simp: typed_def dest: map_of_all_obj)
  from nr b w have av: "available b" and lim: "length (borrowed_books w) < 3"
    by (auto simp: checkout_refused_def)
  define s2 where "s2 = s\<lparr>borrowers := AList.update wid (Obj (w\<lparr>borrowed_books := borrowed_books w @ [bid]\<rparr>)) (borrowers s),
                          books := AList.update bid (Obj (b\<lparr>available := False\<rparr>)) (books s)\<rparr>"
  have "typed s2" using t by (simp add: s2_def typed_def all_obj_update)
  then obtain s' where s': "save s2 = (Inr (), s')" "books s' = books s2" "borrowers s' = borrowers s2"
      "lib_name s' = lib_name s2" "persisted s'"
    using save_typed by blast
  have "checkout_book bid wid s = (Inr True, s')"
    using b w av lim s'(1)
    by (simp add: checkout_book_def can_borrow_def MAX_BOOKS_def Borrower_borrow_book_def Let_def s2_def)
  with b w s' show ?thesis by (auto simp: s2_def)
qed


lemma return_book_refused:
  assumes "typed s" "return_refused s bid wid"
  shows "return_book bid wid s = (Inr False, s)"
proof -
  have w: "\<And>e. map_of (borrowers s) wid = Some e \<Longrightarrow> \<exists>x. e = Obj x"
    using assms(1) by (auto simp: typed_def dest: map_of_all_obj)
  show ?thesis
    using assms(2) w
    by (auto simp: return_refused_def return_book_def split: option.splits entry.splits)
qed

lemma return_book_accepted:
  assumes t: "typed s" and nr: "\<not> return_refused s bid wid"
  shows "\<exists>b w s'. map_of (books s) bid = Some (Obj b) \<and> map_of (borrowers s) wid = Some (Obj w)
           \<and> return_book bid wid s = (Inr True, s')
           \<and> borrowers s' = AList.update wid (Obj (w\<lparr>borrowed_books := remove1 bid (borrowed_books w)\<rparr>)) (borrowers s)
           \<and> books s' = AList.update bid (Obj (b\<lparr>available := True\<rparr>)) (books s)
           \<and> lib_name s' = lib_name s \<and> persisted s'"
proof -
  from nr obtain eb where eb: "map_of (books s) bid = Some eb" by (auto simp: return_refused_def)
  with t obtain b where b: "map_of (books s) bid = Some (Obj b)"
    by (auto simp: typed_def dest: map_of_all_obj)
  from nr obtain ew where ew: "map_of (borrowers s) wid = Some ew" by (auto simp: return_refused_def)
  with t obtain w where w: "map_of (borrowers s) wid = Some (Obj w)"
    by (auto simp: typed_def dest: map_of_all_obj)
  from nr b w have mem: "bid \<in> set (borrowed_books w)"
    by (auto simp: return_refused_def)
  define s2 where "s2 = s\<lparr>borrowers := AList.update wid (Obj (w\<lparr>borrowed_books := remove1 bid (borrowed_books w)\<rparr>)) (borrowers s),
                          books := AList.update bid (Obj (b\<lparr>available := True\<rparr>)) (books s)\<rparr>"
  have "typed s2" using t by (simp add: s2_def typed_def all_obj_update)
  then obtain s' where s': "save s2 = (Inr (), s')" "books s' = books s2" "borrowers s' = borrowers s2"
      "lib_name s' = lib_name s2" "persisted s'"
    using save_typed by blast
  have "return_book bid wid s = (Inr True, s')"
    using b w mem s'(1)
    by (simp add: return_book_def Borrower_return_book_def Let_def s2_def)
  with b w s' show ?thesis by (auto simp: s2_def)
qed


text \<open>
  On a library whose collections hold Book and Borrower objects,
  \<^verbatim>\<open>checkout_book\<close> returns false and leaves the whole state (both collections,
  both files) as it was when the book id is unknown, the book is not available,
  the borrower id is unknown, or the borrower already has three books. In every
  other case the two entries exist, the call returns true, the book id is
  appended to that borrower's list, the book's flag is false, nothing else in
  memory changes, and both files hold the documents of the new collections.
\<close>

lemma checkout_book_on_objects:
  assumes "typed s"
  shows "(checkout_refused s bid wid \<longrightarrow> checkout_book bid wid s = (Inr False, s))
       \<and> (\<not> checkout_refused s bid wid \<longrightarrow>
            (\<exists>b w s'. map_of (books s) bid = Some (Obj b) \<and> map_of (borrowers s) wid = Some (Obj w)
               \<and> checkout_book bid wid s = (Inr True, s')
               \<and> borrowers s' =
                   AList.update wid (Obj (w\<lparr>borrowed_books := borrowed_books w @ [bid]\<rparr>)) (borrowers s)
               \<and> books s' = AList.update bid (Obj (b\<lparr>available := False\<rparr>)) (books s)
               \<and> lib_name s' = lib_name s \<and> persisted s'))"
  using assms checkout_book_refused checkout_book_accepted by blast

text \<open>
  Claim C3 against the code. A library constructed over the files of another one
  holds decoded mappings, and \<^verbatim>\<open>checkout_book\<close> raises on them where the claim
  has it answer. The book of the first library below is known and available and
  the borrower known and without books, so the claim has the call append, persist
  and return true; the book of the second is on loan, so the claim has it return
  false. Both calls raise at the test of \<^verbatim>\<open>available\<close>.
\<close>

theorem checkout_book_after_reload:
  "map_of (books (reloaded example_library)) ''BOOK_0001''
     = Some (Raw (VDict (Book_to_dict
         \<lparr>book_id = ''BOOK_0001'', title = ''Dune'', author = ''Herbert'', genre = ''Science'',
          available = True\<rparr>)))
   \<and> map_of (borrowers (reloaded example_library)) ''USER_0001''
     = Some (Raw (VDict (Borrower_to_dict
         \<lparr>borrower_id = ''USER_0001'', name = ''Alice'', email = ''a@x.com'', borrowed_books = []\<rparr>)))
   \<and> checkout_book ''BOOK_0001'' ''USER_0001'' (reloaded example_library)
     = (Inl AttributeError, reloaded example_library)
   \<and> map_of (books (reloaded example_loan)) ''BOOK_0001''
     = Some (Raw (VDict (Book_to_dict
         \<lparr>book_id = ''BOOK_0001'', title = ''Dune'', author = ''Herbert'', genre = ''Science'',
          available = False\<rparr>)))
   \<and> checkout_book ''BOOK_0001'' ''USER_0001'' (reloaded example_loan)
     = (Inl AttributeError, reloaded example_loan)"
  by code_simp

text \<open>
  On a library whose collections hold Book and Borrower objects,
  \<^verbatim>\<open>return_book\<close> returns false and leaves the whole state as it was when the
  book id or the borrower id is unknown, or when the book id is not on this
  borrower's list, also while another borrower has the book. In every other case
  the call returns true, the first occurrence of the book id leaves the
  borrower's list, the book's flag is true, nothing else in memory changes, and
  both files hold the documents of the new collections.
\<close>

lemma return_book_on_objects:
  assumes "typed s"
  shows "(return_refused s bid wid \<longrightarrow> return_book bid wid s = (Inr False, s))
       \<and> (\<forall>w. map_of (books s) bid \<noteq> None \<and> map_of (borrowers s) wid = Some (Obj w)
              \<and> bid \<notin> set (borrowed_books w) \<and> 0 < copies bid s \<longrightarrow>
              return_book bid wid s = (Inr False, s))
       \<and> (\<not> return_refused s bid wid \<longrightarrow>
            (\<exists>b w s'. map_of (books s) bid = Some (Obj b) \<and> map_of (borrowers s) wid = Some (Obj w)
               \<and> return_book bid wid s = (Inr True, s')
               \<and> borrowers s' =
                   AList.update wid (Obj (w\<lparr>borrowed_books := remove1 bid (borrowed_books w)\<rparr>)) (borrowers s)
               \<and> books s' = AList.update bid (Obj (b\<lparr>available := True\<rparr>)) (books s)
               \<and> lib_name s' = lib_name s \<and> persisted s'))"
proof -
  have "return_refused s bid wid"
    if "map_of (borrowers s) wid = Some (Obj w)" "bid \<notin> set (borrowed_books w)" for w
    using that by (simp add: return_refused_def)
  with assms return_book_refused return_book_accepted show ?thesis by blast
qed

text \<open>
  Claim C4 against the code. In the library constructed over the files of
  \<open>example_loan\<close> the second borrower has the book on the list, so the claim has
  \<^verbatim>\<open>return_book\<close> remove it, persist and return true; the first borrower does not
  have it, so the claim has the call return false. Both calls raise where the
  list of the borrower is read.
\<close>

theorem return_book_after_reload:
  "map_of (borrowers (reloaded example_loan)) ''USER_0002''
     = Some (Raw (VDict (Borrower_to_dict
         \<lparr>borrower_id = ''USER_0002'', name = ''Bob'', email = ''b@x.com'',
          borrowed_books = [''BOOK_0001'']\<rparr>)))
   \<and> return_book ''BOOK_0001'' ''USER_0002'' (reloaded example_loan)
     = (Inl AttributeError, reloaded example_loan)
   \<and> map_of (borrowers (reloaded example_loan)) ''USER_0001''
     = Some (Raw (VDict (Borrower_to_dict
         \<lparr>borrower_id = ''USER_0001'', name = ''Alice'', email = ''a@x.com'', borrowed_books = []\<rparr>)))
   \<and> return_book ''BOOK_0001'' ''USER_0001'' (reloaded example_loan)
     = (Inl AttributeError, reloaded example_loan)"
  by code_simp

section \<open>Library: the invariants of the loans\<close>

lemma snd_after_save:
  "snd (case save s2 of (Inl e, s3) \<Rightarrow> (Inl e, s3) | (Inr u, s3) \<Rightarrow> (Inr r, s3)) = snd (save s2)"
  by (simp split: prod.splits sum.splits)

lemma checkout_book_cases:
  "snd (checkout_book bid wid s) = s
   \<or> (\<exists>b w. map_of (books s) bid = Some (Obj b) \<and> available b
          \<and> map_of (borrowers s) wid = Some (Obj w) \<and> length (borrowed_books w) < 3
          \<and> books (snd (checkout_book bid wid s)) = AList.update bid (Obj (b\<lparr>available := False\<rparr>)) (books s)
          \<and> borrowers (snd (checkout_book bid wid s)) =
              AList.update wid (Obj (w\<lparr>borrowed_books := borrowed_books w @ [bid]\<rparr>)) (borrowers s))"
proof (cases "map_of (books s) bid")
  case None
  then show ?thesis by (simp add: checkout_book_def)
next
  case (Some eb)
  show ?thesis
  proof (cases eb)
    case (Raw v)
    with Some show ?thesis by (simp add: checkout_book_def)
  next
    case (Obj b)
    note b = Some [unfolded Obj]
    show ?thesis
    proof (cases "available b")
      case False
      with b show ?thesis by (simp add: checkout_book_def)
    next
      case av: True
      show ?thesis
      proof (cases "map_of (borrowers s) wid")
        case None
        with b av show ?thesis by (simp add: checkout_book_def)
      next
        case (Some ew)
        show ?thesis
        proof (cases ew)
          case (Raw v)
          with Some b av show ?thesis by (simp add: checkout_book_def)
        next
          case (Obj w)
          note w = Some [unfolded Obj]
          show ?thesis
          proof (cases "can_borrow w")
            case False
            with b av w show ?thesis by (simp add: checkout_book_def)
          next
            case True
            then have lim: "length (borrowed_books w) < 3" by (simp add: can_borrow_def MAX_BOOKS_def)
            define s2 where "s2 = s\<lparr>borrowers := AList.update wid (Obj (w\<lparr>borrowed_books := borrowed_books w @ [bid]\<rparr>)) (borrowers s),
                          books := AList.update bid (Obj (b\<lparr>available := False\<rparr>)) (books s)\<rparr>"
            have "snd (checkout_book bid wid s) = snd (save s2)"
              using b av w True
              by (simp add: checkout_book_def Borrower_borrow_book_def Let_def s2_def snd_after_save)
            then have "books (snd (checkout_book bid wid s)) = books s2"
              and "borrowers (snd (checkout_book bid wid s)) = borrowers s2"
              by (simp_all add: books_save borrowers_save)
            with b av w lim show ?thesis by (simp add: s2_def)
          qed
        qed
      qed
    qed
  qed
qed

lemma return_book_cases:
  "snd (return_book bid wid s) = s
   \<or> (\<exists>w. map_of (borrowers s) wid = Some (Obj w) \<and> bid \<in> set (borrowed_books w)
          \<and> borrowers (snd (return_book bid wid s)) =
              AList.update wid (Obj (w\<lparr>borrowed_books := remove1 bid (borrowed_books w)\<rparr>)) (borrowers s)
          \<and> (case map_of (books s) bid of
                Some (Obj b) \<Rightarrow>
                  books (snd (return_book bid wid s)) = AList.update bid (Obj (b\<lparr>available := True\<rparr>)) (books s)
              | _ \<Rightarrow> books (snd (return_book bid wid s)) = books s))"
proof (cases "map_of (books s) bid = None \<or> map_of (borrowers s) wid = None")
  case True
  then show ?thesis by (simp add: return_book_def)
next
  case False
  then obtain eb ew where eb: "map_of (books s) bid = Some eb" and ew: "map_of (borrowers s) wid = Some ew"
    by auto
  show ?thesis
  proof (cases ew)
    case (Raw v)
    with eb ew show ?thesis by (simp add: return_book_def)
  next
    case (Obj w)
    note w = ew [unfolded Obj]
    show ?thesis
    proof (cases "bid \<in> set (borrowed_books w)")
      case False
      with eb w show ?thesis by (simp add: return_book_def)
    next
      case mem: True
      define s1 where "s1 = s\<lparr>borrowers := AList.update wid (Obj (w\<lparr>borrowed_books := remove1 bid (borrowed_books w)\<rparr>)) (borrowers s)\<rparr>"
      show ?thesis
      proof (cases eb)
        case (Raw v)
        with eb w mem have "snd (return_book bid wid s) = s1"
          by (simp add: return_book_def Borrower_return_book_def Let_def s1_def)
        with eb w mem Raw show ?thesis by (simp add: s1_def)
      next
        case (Obj b)
        define s2 where "s2 = s1\<lparr>books := AList.update bid (Obj (b\<lparr>available := True\<rparr>)) (books s1)\<rparr>"
        from eb w mem Obj have "snd (return_book bid wid s) = snd (save s2)"
          by (simp add: return_book_def Borrower_return_book_def Let_def s1_def s2_def snd_after_save)
        then have "books (snd (return_book bid wid s)) = books s2"
          and "borrowers (snd (return_book bid wid s)) = borrowers s2"
          by (simp_all add: books_save borrowers_save)
        with eb w mem Obj show ?thesis by (simp add: s1_def s2_def)
      qed
    qed
  qed
qed


lemma sum_list_update:
  "map_of xs k = Some e \<Longrightarrow>
   sum_list (map f (AList.update k e' xs)) + f (k, e) = sum_list (map f xs) + (f (k, e') :: nat)"
  by (induction xs) (auto split: if_splits)

lemma count_list_remove1_same:
  "x \<in> set xs \<Longrightarrow> count_list (remove1 x xs) x + 1 = count_list xs x"
  by (induction xs) auto

lemma count_list_remove1_other:
  "y \<noteq> x \<Longrightarrow> count_list (remove1 x xs) y = count_list xs y"
  by (induction xs) auto

lemma copies_borrow:
  assumes "map_of (borrowers s) wid = Some (Obj w)"
    and "borrowers s' = AList.update wid (Obj (w\<lparr>borrowed_books := borrowed_books w @ [bid]\<rparr>)) (borrowers s)"
  shows "copies k s' = copies k s + (if k = bid then 1 else 0)"
  using sum_list_update [OF assms(1), of "\<lambda>(wid, e). held k e"
      "Obj (w\<lparr>borrowed_books := borrowed_books w @ [bid]\<rparr>)"] assms(2)
  by (simp add: copies_def)

lemma copies_return:
  assumes "map_of (borrowers s) wid = Some (Obj w)" "bid \<in> set (borrowed_books w)"
    and "borrowers s' = AList.update wid (Obj (w\<lparr>borrowed_books := remove1 bid (borrowed_books w)\<rparr>)) (borrowers s)"
  shows "copies k s' + (if k = bid then 1 else 0) = copies k s"
  using sum_list_update [OF assms(1), of "\<lambda>(wid, e). held k e"
      "Obj (w\<lparr>borrowed_books := remove1 bid (borrowed_books w)\<rparr>)"] assms(3)
    count_list_remove1_same [OF assms(2)] count_list_remove1_other [of k bid "borrowed_books w"]
  by (auto simp: copies_def)

lemma loans_consistent_iff:
  "loans_consistent s \<longleftrightarrow>
   (\<forall>k b. map_of (books s) k = Some (Obj b) \<longrightarrow> copies k s = (if available b then 0 else 1))"
proof
  assume lc: "loans_consistent s"
  show "\<forall>k b. map_of (books s) k = Some (Obj b) \<longrightarrow> copies k s = (if available b then 0 else 1)"
  proof (intro allI impI)
    fix k b assume m: "map_of (books s) k = Some (Obj b)"
    then have "k \<in> set (map fst (books s))" by (force dest: map_of_SomeD)
    with lc m show "copies k s = (if available b then 0 else 1)"
      by (force simp: loans_consistent_def list_all_iff)
  qed
next
  assume "\<forall>k b. map_of (books s) k = Some (Obj b) \<longrightarrow> copies k s = (if available b then 0 else 1)"
  then show "loans_consistent s"
    by (auto simp: loans_consistent_def list_all_iff split: option.splits entry.splits)
qed

lemma loan_invariant_iff:
  "loan_invariant s \<longleftrightarrow>
   (\<forall>k b. map_of (books s) k = Some (Obj b) \<longrightarrow> (\<not> available b) = (length (holders k s) = 1))"
proof
  assume li: "loan_invariant s"
  show "\<forall>k b. map_of (books s) k = Some (Obj b) \<longrightarrow> (\<not> available b) = (length (holders k s) = 1)"
  proof (intro allI impI)
    fix k b assume m: "map_of (books s) k = Some (Obj b)"
    then have "k \<in> set (map fst (books s))" by (force dest: map_of_SomeD)
    with li m show "(\<not> available b) = (length (holders k s) = 1)"
      by (force simp: loan_invariant_def list_all_iff)
  qed
next
  assume "\<forall>k b. map_of (books s) k = Some (Obj b) \<longrightarrow> (\<not> available b) = (length (holders k s) = 1)"
  then show "loan_invariant s"
    by (auto simp: loan_invariant_def list_all_iff split: option.splits entry.splits)
qed

lemma filter_pos_none: "sum_list (map f xs) = (0::nat) \<Longrightarrow> filter (\<lambda>x. 0 < f x) xs = []"
  by (induction xs) auto

lemma filter_pos_one: "sum_list (map f xs) = (1::nat) \<Longrightarrow> length (filter (\<lambda>x. 0 < f x) xs) = 1"
proof (induction xs)
  case Nil
  then show ?case by simp
next
  case (Cons x xs)
  show ?case
  proof (cases "f x = 0")
    case True
    with Cons show ?thesis by simp
  next
    case False
    from Cons.prems have "f x + sum_list (map f xs) = 1" by simp
    with False have "f x = 1" and "sum_list (map f xs) = 0" by arith+
    then show ?thesis by (simp add: filter_pos_none)
  qed
qed

lemma consistent_imp_invariant:
  assumes "loans_consistent s"
  shows "loan_invariant s"
  unfolding loan_invariant_iff
proof (intro allI impI)
  fix k b assume m: "map_of (books s) k = Some (Obj b)"
  with assms have c: "copies k s = (if available b then 0 else 1)"
    by (simp add: loans_consistent_iff)
  have h: "holders k s = filter (\<lambda>x. 0 < (\<lambda>(wid, e). held k e) x) (borrowers s)"
    by (simp add: holders_def case_prod_unfold)
  show "(\<not> available b) = (length (holders k s) = 1)"
  proof (cases "available b")
    case True
    with c have "sum_list (map (\<lambda>(wid, e). held k e) (borrowers s)) = 0" by (simp add: copies_def)
    then have "holders k s = []" unfolding h by (rule filter_pos_none)
    with True show ?thesis by simp
  next
    case False
    with c have "sum_list (map (\<lambda>(wid, e). held k e) (borrowers s)) = 1" by (simp add: copies_def)
    then have "length (holders k s) = 1" unfolding h by (rule filter_pos_one)
    with False show ?thesis by simp
  qed
qed

lemma checkout_book_consistent:
  assumes "loans_consistent s"
  shows "loans_consistent (snd (checkout_book bid wid s))"
proof -
  let ?s' = "snd (checkout_book bid wid s)"
  from checkout_book_cases [of bid wid s] show ?thesis
  proof
    assume "?s' = s"
    with assms show ?thesis by simp
  next
    assume "\<exists>b w. map_of (books s) bid = Some (Obj b) \<and> available b
          \<and> map_of (borrowers s) wid = Some (Obj w) \<and> length (borrowed_books w) < 3
          \<and> books ?s' = AList.update bid (Obj (b\<lparr>available := False\<rparr>)) (books s)
          \<and> borrowers ?s' =
              AList.update wid (Obj (w\<lparr>borrowed_books := borrowed_books w @ [bid]\<rparr>)) (borrowers s)"
    then obtain b w where b: "map_of (books s) bid = Some (Obj b)" and av: "available b"
      and w: "map_of (borrowers s) wid = Some (Obj w)"
      and bs: "books ?s' = AList.update bid (Obj (b\<lparr>available := False\<rparr>)) (books s)"
      and ws: "borrowers ?s' =
              AList.update wid (Obj (w\<lparr>borrowed_books := borrowed_books w @ [bid]\<rparr>)) (borrowers s)"
      by blast
    have cp: "copies k ?s' = copies k s + (if k = bid then 1 else 0)" for k
      using w ws by (rule copies_borrow)
    from assms b av have c0: "copies bid s = 0" by (simp add: loans_consistent_iff)
    show ?thesis
      unfolding loans_consistent_iff
    proof (intro allI impI)
      fix k b' assume m: "map_of (books ?s') k = Some (Obj b')"
      show "copies k ?s' = (if available b' then 0 else 1)"
      proof (cases "k = bid")
        case True
        with m bs have "b' = b\<lparr>available := False\<rparr>" by (simp add: update_conv')
        with True cp [of k] c0 show ?thesis by simp
      next
        case False
        with m bs have "map_of (books s) k = Some (Obj b')" by (simp add: update_conv')
        with assms have "copies k s = (if available b' then 0 else 1)" by (simp add: loans_consistent_iff)
        with False cp [of k] show ?thesis by simp
      qed
    qed
  qed
qed

lemma return_book_consistent:
  assumes "loans_consistent s"
  shows "loans_consistent (snd (return_book bid wid s))"
proof -
  let ?s' = "snd (return_book bid wid s)"
  from return_book_cases [of bid wid s] show ?thesis
  proof
    assume "?s' = s"
    with assms show ?thesis by simp
  next
    assume "\<exists>w. map_of (borrowers s) wid = Some (Obj w) \<and> bid \<in> set (borrowed_books w)
          \<and> borrowers ?s' =
              AList.update wid (Obj (w\<lparr>borrowed_books := remove1 bid (borrowed_books w)\<rparr>)) (borrowers s)
          \<and> (case map_of (books s) bid of
                Some (Obj b) \<Rightarrow>
                  books ?s' = AList.update bid (Obj (b\<lparr>available := True\<rparr>)) (books s)
              | _ \<Rightarrow> books ?s' = books s)"
    then obtain w where w: "map_of (borrowers s) wid = Some (Obj w)" and mem: "bid \<in> set (borrowed_books w)"
      and ws: "borrowers ?s' =
              AList.update wid (Obj (w\<lparr>borrowed_books := remove1 bid (borrowed_books w)\<rparr>)) (borrowers s)"
      and bs: "(case map_of (books s) bid of
                Some (Obj b) \<Rightarrow>
                  books ?s' = AList.update bid (Obj (b\<lparr>available := True\<rparr>)) (books s)
              | _ \<Rightarrow> books ?s' = books s)"
      by blast
    have cp: "copies k ?s' + (if k = bid then 1 else 0) = copies k s" for k
      using w mem ws by (rule copies_return)
    show ?thesis
      unfolding loans_consistent_iff
    proof (intro allI impI)
      fix k b' assume m: "map_of (books ?s') k = Some (Obj b')"
      show "copies k ?s' = (if available b' then 0 else 1)"
      proof (cases "k = bid")
        case False
        with m bs have "map_of (books s) k = Some (Obj b')"
          by (auto simp: update_conv' split: option.splits entry.splits)
        with assms have "copies k s = (if available b' then 0 else 1)" by (simp add: loans_consistent_iff)
        with False cp [of k] show ?thesis by simp
      next
        case True
        show ?thesis
        proof (cases "map_of (books s) bid")
          case None
          with bs m True show ?thesis by simp
        next
          case (Some eb)
          show ?thesis
          proof (cases eb)
            case (Raw v)
            with Some bs m True show ?thesis by simp
          next
            case (Obj b)
            with Some bs m True have b': "b' = b\<lparr>available := True\<rparr>" by (simp add: update_conv')
            from assms Some Obj have "copies bid s = (if available b then 0 else 1)"
              by (simp add: loans_consistent_iff)
            with cp [of bid] have "copies bid ?s' = 0" by (simp split: if_splits)
            with True b' show ?thesis by simp
          qed
        qed
      qed
    qed
  qed
qed

lemma run_loans_consistent:
  "loans_consistent s \<Longrightarrow> list_all is_loan ops \<Longrightarrow> loans_consistent (run ops s)"
proof (induction ops arbitrary: s)
  case Nil
  then show ?case by simp
next
  case (Cons c cs)
  from Cons.prems have "is_loan c" and rest: "list_all is_loan cs" by simp_all
  then have "loans_consistent (step c s)"
    using Cons.prems(1) by (cases c) (simp_all add: checkout_book_consistent return_book_consistent)
  with rest show ?case by (simp add: Cons.IH)
qed

text \<open>
  Claim C2. Start from a library in which every available Book is on no
  borrower's list and every unavailable Book is on the lists exactly once (a
  newly constructed library is in that state). After any sequence of
  \<^verbatim>\<open>checkout_book\<close> and \<^verbatim>\<open>return_book\<close> calls, whether they return true, return
  false or raise, every Book of the collection is unavailable exactly when its
  id is on the list of exactly one borrower. Every intermediate state is the
  state after a shorter sequence, so the invariant holds after each mutation.
\<close>

theorem loan_invariant_maintained:
  "(loans_consistent s \<and> list_all is_loan ops \<longrightarrow>
      loan_invariant (run ops s) \<and> loans_consistent (run ops s))
   \<and> loans_consistent (Library_init n bdoc wdoc)"
proof -
  have "loans_consistent (Library_init n bdoc wdoc)"
    by (auto simp: loans_consistent_iff Library_init_def load_def Let_def raw_items_def
        split: option.splits dest!: map_of_SomeD)
  then show ?thesis
    using run_loans_consistent consistent_imp_invariant by blast
qed

theorem loan_invariant_maintained_witness:
  "loans_consistent example_library
   \<and> list_all is_loan [Checkout ''BOOK_0001'' ''USER_0001'', Checkout ''BOOK_0001'' ''USER_0001'',
        Return ''BOOK_0001'' ''USER_0001'', Return ''BOOK_0001'' ''USER_0001'',
        Checkout ''BOOK_0001'' ''USER_0001'']
   \<and> loan_invariant (run [Checkout ''BOOK_0001'' ''USER_0001'', Checkout ''BOOK_0001'' ''USER_0001'',
        Return ''BOOK_0001'' ''USER_0001'', Return ''BOOK_0001'' ''USER_0001'',
        Checkout ''BOOK_0001'' ''USER_0001''] example_library)"
proof -
  have c: "loans_consistent example_library" by code_simp
  have l: "list_all is_loan [Checkout ''BOOK_0001'' ''USER_0001'', Checkout ''BOOK_0001'' ''USER_0001'',
        Return ''BOOK_0001'' ''USER_0001'', Return ''BOOK_0001'' ''USER_0001'',
        Checkout ''BOOK_0001'' ''USER_0001'']" by simp
  from c l show ?thesis
    using loan_invariant_maintained [of example_library
        "[Checkout ''BOOK_0001'' ''USER_0001'', Checkout ''BOOK_0001'' ''USER_0001'',
          Return ''BOOK_0001'' ''USER_0001'', Return ''BOOK_0001'' ''USER_0001'',
          Checkout ''BOOK_0001'' ''USER_0001'']"]
    by blast
qed

section \<open>Library: the limit of three books\<close>

lemma limit_update:
  "list_all (\<lambda>(wid, e). case e of Obj w \<Rightarrow> length (borrowed_books w) \<le> 3 | Raw v \<Rightarrow> True) xs \<Longrightarrow>
   length (borrowed_books w) \<le> 3 \<Longrightarrow>
   list_all (\<lambda>(wid, e). case e of Obj w \<Rightarrow> length (borrowed_books w) \<le> 3 | Raw v \<Rightarrow> True)
     (AList.update k (Obj w) xs)"
  by (induction xs) auto

lemma limit_lookup:
  "list_all (\<lambda>(wid, e). case e of Obj w \<Rightarrow> length (borrowed_books w) \<le> 3 | Raw v \<Rightarrow> True) xs \<Longrightarrow>
   map_of xs k = Some (Obj w) \<Longrightarrow> length (borrowed_books w) \<le> 3"
  by (induction xs) (auto split: if_splits)

lemma limit_raw:
  "list_all (\<lambda>(wid, e). case e of Obj w \<Rightarrow> length (borrowed_books w) \<le> 3 | Raw v \<Rightarrow> True)
     (raw_items d)"
  by (induction d) (auto simp: raw_items_def)

lemma add_book_borrowers: "borrowers (snd (add_book t a g s)) = borrowers s"
proof (cases "fst (generate_id ''BOOK'' (map fst (books s)))")
  case (Inl e)
  then show ?thesis by (simp add: add_book_def)
next
  case (Inr nid)
  show ?thesis
  proof (cases "Book_init nid t a g True")
    case (Inl e)
    with Inr show ?thesis by (simp add: add_book_def)
  next
    case new: (Inr nb)
    define s1 where "s1 = s\<lparr>books := AList.update (book_id nb) (Obj nb) (books s)\<rparr>"
    from Inr new have "snd (add_book t a g s) = snd (save s1)"
      by (simp add: add_book_def Let_def s1_def snd_after_save)
    then show ?thesis by (simp add: borrowers_save s1_def)
  qed
qed

lemma add_borrower_cases:
  "borrowers (snd (add_borrower n e s)) = borrowers s
   \<or> (\<exists>nid. borrowers (snd (add_borrower n e s)) =
         AList.update nid (Obj \<lparr>borrower_id = nid, name = n, email = e, borrowed_books = []\<rparr>) (borrowers s))"
proof (cases "fst (generate_id ''USER'' (map fst (borrowers s)))")
  case (Inl err)
  then show ?thesis by (simp add: add_borrower_def)
next
  case (Inr nid)
  then show ?thesis using add_borrower_borrowers [OF Inr] by blast
qed

lemma step_within_limit:
  assumes "within_limit s"
  shows "within_limit (step c s)"
proof (cases c)
  case (AddBook t a g)
  with assms show ?thesis by (simp add: within_limit_def add_book_borrowers)
next
  case (AddBorrower n e)
  from add_borrower_cases [of n e s] show ?thesis
  proof
    assume "borrowers (snd (add_borrower n e s)) = borrowers s"
    with assms AddBorrower show ?thesis by (simp add: within_limit_def)
  next
    assume "\<exists>nid. borrowers (snd (add_borrower n e s)) =
         AList.update nid (Obj \<lparr>borrower_id = nid, name = n, email = e, borrowed_books = []\<rparr>) (borrowers s)"
    then obtain nid where "borrowers (snd (add_borrower n e s)) =
         AList.update nid (Obj \<lparr>borrower_id = nid, name = n, email = e, borrowed_books = []\<rparr>) (borrowers s)"
      by blast
    with assms AddBorrower show ?thesis by (simp add: within_limit_def limit_update)
  qed
next
  case (Checkout bid wid)
  from checkout_book_cases [of bid wid s] show ?thesis
  proof
    assume "snd (checkout_book bid wid s) = s"
    with assms Checkout show ?thesis by simp
  next
    assume "\<exists>b w. map_of (books s) bid = Some (Obj b) \<and> available b
          \<and> map_of (borrowers s) wid = Some (Obj w) \<and> length (borrowed_books w) < 3
          \<and> books (snd (checkout_book bid wid s)) = AList.update bid (Obj (b\<lparr>available := False\<rparr>)) (books s)
          \<and> borrowers (snd (checkout_book bid wid s)) =
              AList.update wid (Obj (w\<lparr>borrowed_books := borrowed_books w @ [bid]\<rparr>)) (borrowers s)"
    then obtain w where "length (borrowed_books w) < 3"
      and "borrowers (snd (checkout_book bid wid s)) =
              AList.update wid (Obj (w\<lparr>borrowed_books := borrowed_books w @ [bid]\<rparr>)) (borrowers s)"
      by blast
    with assms Checkout show ?thesis
      by (simp add: within_limit_def limit_update)
  qed
next
  case (Return bid wid)
  from return_book_cases [of bid wid s] show ?thesis
  proof
    assume "snd (return_book bid wid s) = s"
    with assms Return show ?thesis by simp
  next
    assume "\<exists>w. map_of (borrowers s) wid = Some (Obj w) \<and> bid \<in> set (borrowed_books w)
          \<and> borrowers (snd (return_book bid wid s)) =
              AList.update wid (Obj (w\<lparr>borrowed_books := remove1 bid (borrowed_books w)\<rparr>)) (borrowers s)
          \<and> (case map_of (books s) bid of
                Some (Obj b) \<Rightarrow>
                  books (snd (return_book bid wid s)) = AList.update bid (Obj (b\<lparr>available := True\<rparr>)) (books s)
              | _ \<Rightarrow> books (snd (return_book bid wid s)) = books s)"
    then obtain w where w: "map_of (borrowers s) wid = Some (Obj w)" and mem: "bid \<in> set (borrowed_books w)"
      and ws: "borrowers (snd (return_book bid wid s)) =
              AList.update wid (Obj (w\<lparr>borrowed_books := remove1 bid (borrowed_books w)\<rparr>)) (borrowers s)"
      by blast
    from assms w have "length (borrowed_books w) \<le> 3"
      unfolding within_limit_def by (rule limit_lookup)
    with mem have "length (remove1 bid (borrowed_books w)) \<le> 3" by (simp add: length_remove1)
    with assms Return ws show ?thesis by (simp add: within_limit_def limit_update)
  qed
next
  case Save
  with assms show ?thesis by (simp add: within_limit_def borrowers_save)
next
  case Load
  with assms show ?thesis
    by (auto simp: within_limit_def load_def Let_def limit_raw split: option.splits)
qed

lemma run_within_limit: "within_limit s \<Longrightarrow> within_limit (run ops s)"
  by (induction ops arbitrary: s) (simp_all add: step_within_limit)

text \<open>
  No Borrower object of a library gets more than three entries on its list: if
  none has more, none has after any sequence of calls of the methods that assign
  (\<^verbatim>\<open>add_book\<close>, \<^verbatim>\<open>add_borrower\<close>, \<^verbatim>\<open>checkout_book\<close>, \<^verbatim>\<open>return_book\<close>, \<^verbatim>\<open>save\<close>,
  \<^verbatim>\<open>load\<close>), returned or raised. On a library whose collections hold objects, a
  \<^verbatim>\<open>checkout_book\<close> for a borrower with three books returns false and leaves the
  whole state as it was.
\<close>

lemma borrow_limit_on_objects:
  "(within_limit s \<longrightarrow> within_limit (run ops s))
   \<and> (typed s \<and> map_of (borrowers s) wid = Some (Obj w) \<and> length (borrowed_books w) = 3 \<longrightarrow>
        checkout_book bid wid s = (Inr False, s))"
proof -
  have "checkout_refused s bid wid"
    if "map_of (borrowers s) wid = Some (Obj w)" "length (borrowed_books w) = 3"
    using that by (simp add: checkout_refused_def)
  then show ?thesis
    using run_within_limit checkout_book_refused by blast
qed

text \<open>
  Claim C5 against the code. In the library constructed over the files of
  \<open>example_full\<close> the borrower holds three books and the fourth book is known and
  available, so the claim has the fourth \<^verbatim>\<open>checkout_book\<close> return false. The
  call raises instead, at the test of \<^verbatim>\<open>available\<close> on the decoded mapping; the
  state is left as it was.
\<close>

theorem fourth_checkout_after_reload:
  "map_of (borrowers (reloaded example_full)) ''USER_0001''
     = Some (Raw (VDict (Borrower_to_dict
         \<lparr>borrower_id = ''USER_0001'', name = ''Alice'', email = ''a@x.com'',
          borrowed_books = [''BOOK_0001'', ''BOOK_0002'', ''BOOK_0003'']\<rparr>)))
   \<and> map_of (books (reloaded example_full)) ''BOOK_0004''
     = Some (Raw (VDict (Book_to_dict
         \<lparr>book_id = ''BOOK_0004'', title = ''SPQR'', author = ''Beard'', genre = ''History'',
          available = True\<rparr>)))
   \<and> checkout_book ''BOOK_0004'' ''USER_0001'' (reloaded example_full)
     = (Inl AttributeError, reloaded example_full)"
  by code_simp

section \<open>Library: searching\<close>

lemma booklist_typed:
  "list_all (\<lambda>(k, e). is_obj e) xs \<Longrightarrow> booklist xs = Inr (map Book_to_dict (objs xs))"
  by (induction xs rule: booklist.induct) auto

lemma map_of_Book_to_dict:
  "map_of (Book_to_dict b) k =
     (if k = ''book_id'' then Some (VStr (book_id b))
      else if k = ''title'' then Some (VStr (title b))
      else if k = ''author'' then Some (VStr (author b))
      else if k = ''genre'' then Some (VStr (genre b))
      else if k = ''available'' then Some (VBool (available b))
      else None)"
  by (simp add: Book_to_dict_def)

lemma str_of_Some: "str_of v \<noteq> None \<Longrightarrow> \<exists>y. v = VStr y"
  by (cases v) simp_all

lemma match_loop_book:
  "searchable cs \<Longrightarrow>
   match_loop (Book_to_dict b) cs m = Inr (m \<and> list_all (satisfies (Book_to_dict b)) cs)"
proof (induction cs arbitrary: m)
  case Nil
  show ?case by simp
next
  case (Cons c cs)
  obtain k v where c: "c = (k, v)" by (cases c)
  from Cons.prems c have na: "k \<noteq> ''available''"
    and hd: "if k \<in> {''book_id'', ''title'', ''author'', ''genre''} then str_of v \<noteq> None else True"
    and rest: "searchable cs"
    by (simp_all add: searchable_def)
  have st: "\<exists>y. v = VStr y" if "k \<in> {''book_id'', ''title'', ''author'', ''genre''}"
    using hd that by (metis str_of_Some)
  note IH = Cons.IH [OF rest]
  show ?case
  proof (cases "k \<in> {''book_id'', ''title'', ''author'', ''genre''}")
    case False
    with na have "map_of (Book_to_dict b) k = None" by (simp add: map_of_Book_to_dict)
    then show ?thesis by (simp add: c IH satisfies_def)
  next
    case True
    then obtain y where y: "v = VStr y" using st by blast
    from True obtain x where x: "map_of (Book_to_dict b) k = Some (VStr x)"
      by (auto simp: map_of_Book_to_dict)
    show ?thesis by (auto simp: c x y IH satisfies_def)
  qed
qed

lemma search_loop_books:
  "searchable cs \<Longrightarrow>
   search_loop (map Book_to_dict bs) cs =
     Inr (filter (\<lambda>item. list_all (satisfies item) cs) (map Book_to_dict bs))"
  by (induction bs) (simp_all add: match_loop_book)

lemma searchable_keys:
  "searchable cs \<Longrightarrow> ''self'' \<notin> set (map fst cs) \<and> ''items'' \<notin> set (map fst cs)"
  by (induction cs) (auto simp: searchable_def)

text \<open>
  Claim C8 as stated fails. The criteria travel as keyword arguments, so a
  criterion whose key is the name of a parameter raises where the claim has the
  book excluded and nothing raised: \<^verbatim>\<open>items\<close> on the call of \<^verbatim>\<open>search_items\<close>,
  \<^verbatim>\<open>self\<close> on the call of \<^verbatim>\<open>search_books\<close> itself. And what comes back are the
  serialised mappings, not the Book objects.
\<close>

theorem search_books_keyword_clash:
  "map_of (Book_to_dict \<lparr>book_id = ''BOOK_0001'', title = ''Dune'', author = ''Herbert'',
                          genre = ''Science'', available = True\<rparr>) ''items'' = None
   \<and> search_books [(''items'', VStr ''x'')] example_library = Inl TypeError
   \<and> search_books [(''self'', VStr ''x'')] example_library = Inl TypeError
   \<and> search_books [] example_library
       = Inr [[(''book_id'', VStr ''BOOK_0001''), (''title'', VStr ''Dune''), (''author'', VStr ''Herbert''),
               (''genre'', VStr ''Science''), (''available'', VBool True)]]"
  by code_simp

text \<open>
  A criterion on the boolean field raises as soon as there is a book: the
  serialised flag has no \<^verbatim>\<open>lower\<close>.
\<close>

lemma search_books_available_raises:
  "search_books [(''available'', VStr ''true'')] example_library = Inl AttributeError
   \<and> search_books [(''available'', VBool True)] example_library = Inl AttributeError"
  by code_simp

text \<open>
  Claim C8, amended. On a library whose books are Book objects, and for criteria
  that name none of \<^verbatim>\<open>available\<close>, \<^verbatim>\<open>self\<close>, \<^verbatim>\<open>items\<close> and give a string for each
  of \<^verbatim>\<open>book_id\<close>, \<^verbatim>\<open>title\<close>, \<^verbatim>\<open>author\<close>, \<^verbatim>\<open>genre\<close> they name, \<^verbatim>\<open>search_books\<close>
  returns, in the order of the collection, the serialised mappings of exactly the
  books for which every criterion key is present with a string equal to the
  criterion's once both are lowered. A key that the serialised form lacks
  excludes the book and raises nothing; empty criteria return the mappings of
  all books.
\<close>

theorem search_books_spec:
  assumes "list_all (\<lambda>(k, e). is_obj e) (books s)"
  shows "(searchable criteria \<longrightarrow>
            search_books criteria s =
              Inr (filter (\<lambda>item. list_all (satisfies item) criteria) (map Book_to_dict (objs (books s)))))
       \<and> search_books [] s = Inr (map Book_to_dict (objs (books s)))"
proof -
  have "search_books cs s =
          Inr (filter (\<lambda>item. list_all (satisfies item) cs) (map Book_to_dict (objs (books s))))"
    if "searchable cs" for cs
    using assms that searchable_keys [OF that]
    by (simp add: search_books_def search_items_def booklist_typed search_loop_books)
  moreover have "searchable []" by (simp add: searchable_def)
  ultimately show ?thesis by fastforce
qed

theorem search_books_spec_witness:
  "list_all (\<lambda>(k, e). is_obj e) (books example_library)
   \<and> searchable [(''genre'', VStr ''science''), (''author'', VStr ''HERBERT''), (''year'', VInt 1965)]
   \<and> search_books [(''genre'', VStr ''science''), (''author'', VStr ''HERBERT''), (''year'', VInt 1965)]
        example_library = Inr []
   \<and> searchable [(''genre'', VStr ''science''), (''author'', VStr ''HERBERT'')]
   \<and> search_books [(''genre'', VStr ''science''), (''author'', VStr ''HERBERT'')] example_library
       = Inr (filter (\<lambda>item. list_all (satisfies item)
                               [(''genre'', VStr ''science''), (''author'', VStr ''HERBERT'')])
                (map Book_to_dict (objs (books example_library))))
   \<and> search_books [(''genre'', VStr ''science''), (''author'', VStr ''HERBERT'')] example_library
       = Inr [Book_to_dict \<lparr>book_id = ''BOOK_0001'', title = ''Dune'', author = ''Herbert'',
                          genre = ''Science'', available = True\<rparr>]"
proof -
  have t: "list_all (\<lambda>(k, e). is_obj e) (books example_library)" by code_simp
  have c: "searchable [(''genre'', VStr ''science''), (''author'', VStr ''HERBERT'')]" by code_simp
  have c': "searchable [(''genre'', VStr ''science''), (''author'', VStr ''HERBERT''), (''year'', VInt 1965)]"
    by (simp add: searchable_def)
  have v: "filter (\<lambda>item. list_all (satisfies item)
                               [(''genre'', VStr ''science''), (''author'', VStr ''HERBERT'')])
                (map Book_to_dict (objs (books example_library)))
           = [Book_to_dict \<lparr>book_id = ''BOOK_0001'', title = ''Dune'', author = ''Herbert'',
                          genre = ''Science'', available = True\<rparr>]" by code_simp
  have v': "filter (\<lambda>item. list_all (satisfies item)
                [(''genre'', VStr ''science''), (''author'', VStr ''HERBERT''), (''year'', VInt 1965)])
                (map Book_to_dict (objs (books example_library)))
           = []" by code_simp
  from c have r: "search_books [(''genre'', VStr ''science''), (''author'', VStr ''HERBERT'')] example_library
       = Inr (filter (\<lambda>item. list_all (satisfies item)
                               [(''genre'', VStr ''science''), (''author'', VStr ''HERBERT'')])
                (map Book_to_dict (objs (books example_library))))"
    using search_books_spec [OF t, of "[(''genre'', VStr ''science''), (''author'', VStr ''HERBERT'')]"]
    by blast
  from c' have "search_books [(''genre'', VStr ''science''), (''author'', VStr ''HERBERT''),
        (''year'', VInt 1965)] example_library
       = Inr (filter (\<lambda>item. list_all (satisfies item)
                [(''genre'', VStr ''science''), (''author'', VStr ''HERBERT''), (''year'', VInt 1965)])
                (map Book_to_dict (objs (books example_library))))"
    using search_books_spec [OF t,
        of "[(''genre'', VStr ''science''), (''author'', VStr ''HERBERT''), (''year'', VInt 1965)]"]
    by blast
  then have r': "search_books [(''genre'', VStr ''science''), (''author'', VStr ''HERBERT''),
        (''year'', VInt 1965)] example_library = Inr []"
    by (simp only: v')
  from t c c' r r' v show ?thesis by simp
qed

section \<open>Library: loading\<close>

text \<open>
  Claim C1 against the code. A library constructed over the documents that
  \<^verbatim>\<open>save\<close> wrote holds, under the book's id, the decoded mapping and no Book
  object: \<^verbatim>\<open>load\<close> assigns what \<^verbatim>\<open>json.load\<close> returns and never calls
  \<^verbatim>\<open>from_dict\<close>. The first method that reads an attribute of the value raises.
  With both documents absent the collections start empty, as claimed.
\<close>

theorem load_stores_raw_mappings:
  "books (Library_init ''City'' (books_file example_library) (borrowers_file example_library))
     = [(''BOOK_0001'', Raw (VDict (Book_to_dict \<lparr>book_id = ''BOOK_0001'', title = ''Dune'', author = ''Herbert'',
                          genre = ''Science'', available = True\<rparr>)))]
   \<and> checkout_book ''BOOK_0001'' ''USER_0001''
        (Library_init ''City'' (books_file example_library) (borrowers_file example_library))
     = (Inl AttributeError, Library_init ''City'' (books_file example_library) (borrowers_file example_library))
   \<and> fst (save (Library_init ''City'' (books_file example_library) (borrowers_file example_library)))
     = Inl AttributeError
   \<and> fst (add_book ''Emma'' ''Austen'' ''Fiction''
        (Library_init ''City'' (books_file example_library) (borrowers_file example_library)))
     = Inl AttributeError
   \<and> books (Library_init ''City'' None None) = []
   \<and> borrowers (Library_init ''City'' None None) = []"
  by code_simp

end
